theory Spec2Isabelle
  imports Main
begin

section \<open>Python string operations used by the script\<close>

text \<open>
  Text is modelled as \<open>string\<close>, one \<open>char\<close> per code point below 256 (the alignment
  text and the FASTQ headers are ASCII). \<open>isspace\<close> is Python's \<open>str.isspace\<close> on these
  code points: tab, line feed, vertical tab, form feed, carriage return, the four
  separators 0x1C..0x1F, space, 0x85 and 0xA0.
\<close>

definition isspace :: "char \<Rightarrow> bool" where
  "isspace c = (c \<in> set [CHR 0x09, CHR 0x0A, CHR 0x0B, CHR 0x0C, CHR 0x0D,
                          CHR 0x1C, CHR 0x1D, CHR 0x1E, CHR 0x1F, CHR 0x20,
                          CHR 0x85, CHR 0xA0])"

text \<open>
  \<open>s.split()\<close>: the maximal runs of non-whitespace characters, in order. The first
  argument of \<open>split_acc\<close> is the field read so far.
\<close>

fun split_acc :: "string \<Rightarrow> string \<Rightarrow> string list" where
  "split_acc w [] = (if w = [] then [] else [w])"
| "split_acc w (c # cs) =
     (if isspace c then (if w = [] then split_acc [] cs else w # split_acc [] cs)
      else split_acc (w @ [c]) cs)"

definition split_ws :: "string \<Rightarrow> string list" where
  "split_ws s = split_acc [] s"

text \<open>
  \<open>s.split(sep)\<close> for a one-character separator: every separator ends a segment, so
  the result is never empty and \<open>[-1]\<close> on it never raises.
\<close>

fun split_on_acc :: "char \<Rightarrow> string \<Rightarrow> string \<Rightarrow> string list" where
  "split_on_acc sep w [] = [w]"
| "split_on_acc sep w (c # cs) =
     (if c = sep then w # split_on_acc sep [] cs else split_on_acc sep (w @ [c]) cs)"

definition split_on :: "char \<Rightarrow> string \<Rightarrow> string list" where
  "split_on sep s = split_on_acc sep [] s"

definition endswith :: "string \<Rightarrow> string \<Rightarrow> bool" where
  "endswith s suffix =
     (length suffix \<le> length s \<and> drop (length s - length suffix) s = suffix)"

section \<open>Errors\<close>

datatype oserror = ENOENT | EEXIST | ENOTDIR | EISDIR

datatype error = IndexError | StopIteration | UnboundLocalError | OSError oserror

section \<open>The hit index builder\<close>

text \<open>
  \<open>read_hit_dict\<close>: read identifier to the list of its targets. The lines are the
  standard output of the external \<open>samtools view -F 4\<close>, taken as given.
\<close>

type_synonym hit_dict = "string \<rightharpoonup> string list"

fun read_sorting_loop :: "string list \<Rightarrow> hit_dict \<Rightarrow> error + hit_dict" where
  "read_sorting_loop [] read_hit_dict = Inr read_hit_dict"
| "read_sorting_loop (line # bwa_results) read_hit_dict =
     (let fields = split_ws line in
      if length fields \<le> 0 then Inl IndexError
      else let readID = fields ! 0 in
      if length fields \<le> 2 then Inl IndexError
      else let target = last (split_on CHR ''-'' (fields ! 2)) in
        (case read_hit_dict readID of
           Some targets \<Rightarrow>
             if target \<notin> set targets
             then read_sorting_loop bwa_results (read_hit_dict(readID \<mapsto> targets @ [target]))
             else read_sorting_loop bwa_results read_hit_dict
         | None \<Rightarrow> read_sorting_loop bwa_results (read_hit_dict(readID \<mapsto> [target]))))"

definition read_sorting :: "string list \<Rightarrow> error + hit_dict" where
  "read_sorting bwa_results = read_sorting_loop bwa_results Map.empty"

text \<open>The two fields of a line that the builder reads, for lines that have them.\<close>

definition line_read :: "string \<Rightarrow> string" where
  "line_read line = split_ws line ! 0"

definition line_target :: "string \<Rightarrow> string" where
  "line_target line = last (split_on CHR ''-'' (split_ws line ! 2))"

text \<open>
  The specification's target list of a read: the targets of the read's lines, each
  kept at its first occurrence only.
\<close>

definition first_occurrences :: "'a list \<Rightarrow> 'a list" where
  "first_occurrences xs = rev (remdups (rev xs))"

definition targets_of :: "string list \<Rightarrow> string \<Rightarrow> string list" where
  "targets_of bwa_results r =
     first_occurrences (map line_target (filter (\<lambda>l. line_read l = r) bwa_results))"

section \<open>The file system\<close>

text \<open>
  The output tree under the working directory: the directories that exist and the
  regular files with their contents. Paths are told apart by their spelling (no symbolic
  links, no \<open>.\<close> or \<open>..\<close> resolution) and permissions never deny a call. The
  spelling of a path is the path itself for targets that are directory names (one
  component, not \<open>.\<close> or \<open>..\<close>); two spellings of one directory, such as \<open>7\<close> and
  \<open>./7\<close>, are outside what the model describes.
\<close>

record filesystem =
  dirs :: "string set"
  files :: "string \<rightharpoonup> string"

text \<open>
  A run either raises, leaving the file system as it was at that moment, or returns
  normally.
\<close>

type_synonym outcome = "(error \<times> filesystem) + filesystem"

definition and_then :: "outcome \<Rightarrow> (filesystem \<Rightarrow> outcome) \<Rightarrow> outcome" where
  "and_then r f = (case r of Inl e \<Rightarrow> Inl e | Inr fs \<Rightarrow> f fs)"

text \<open>A \<open>for\<close> loop over a list whose body may raise.\<close>

fun for_each :: "('a \<Rightarrow> filesystem \<Rightarrow> outcome) \<Rightarrow> 'a list \<Rightarrow> filesystem \<Rightarrow> outcome" where
  "for_each body [] fs = Inr fs"
| "for_each body (x # xs) fs = and_then (body x fs) (for_each body xs)"

definition content :: "filesystem \<Rightarrow> string \<Rightarrow> string" where
  "content fs path = (case files fs path of None \<Rightarrow> [] | Some text \<Rightarrow> text)"

text \<open>The proper prefixes of a path that end just before a \<open>/\<close>: its parent directories.\<close>

definition ancestors :: "string \<Rightarrow> string list" where
  "ancestors path = map (\<lambda>i. take i path) (filter (\<lambda>i. path ! i = CHR ''/'') [1..<length path])"

text \<open>
  \<open>os.makedirs(path)\<close>: creates the directory and the missing parents; fails on the empty
  path, on a path that exists, and below a regular file.
\<close>

definition makedirs :: "string \<Rightarrow> filesystem \<Rightarrow> oserror + filesystem" where
  "makedirs path fs =
     (if path = [] then Inl ENOENT
      else if path \<in> dirs fs \<or> files fs path \<noteq> None then Inl EEXIST
      else if \<exists>a \<in> set (ancestors path). files fs a \<noteq> None then Inl ENOTDIR
      else Inr (fs\<lparr>dirs := dirs fs \<union> set (ancestors path) \<union> {path}\<rparr>))"

definition isdir :: "string \<Rightarrow> filesystem \<Rightarrow> bool" where
  "isdir path fs = (path \<in> dirs fs)"

definition mkdir_p :: "string \<Rightarrow> filesystem \<Rightarrow> outcome" where
  "mkdir_p path fs =
     (case makedirs path fs of
        Inr fs' \<Rightarrow> Inr fs'
      | Inl errno \<Rightarrow>
          if errno = EEXIST \<and> isdir path fs then Inr fs else Inl (OSError errno, fs))"

text \<open>\<open>os.path.join\<close> of two components and \<open>os.path.dirname\<close>, as \<open>posixpath\<close> has them.\<close>

definition os_path_join :: "string \<Rightarrow> string \<Rightarrow> string" where
  "os_path_join a b =
     (if b \<noteq> [] \<and> hd b = CHR ''/'' then b
      else if a = [] \<or> last a = CHR ''/'' then a @ b
      else a @ ''/'' @ b)"

definition dirname :: "string \<Rightarrow> string" where
  "dirname path =
     (let head = rev (dropWhile (\<lambda>c. c \<noteq> CHR ''/'') (rev path)) in
      if head \<noteq> [] \<and> (\<exists>c \<in> set head. c \<noteq> CHR ''/'')
      then rev (dropWhile (\<lambda>c. c = CHR ''/'') (rev head))
      else head)"

text \<open>
  \<open>open(path, 'a')\<close>: the file is created empty when it is missing and is never
  truncated; the call fails on a directory and when the parent is a regular file or is
  missing. A parent \<open>dirname\<close> that is empty (the working directory) or all slashes
  (the root) is a directory that exists.
\<close>

definition open_append :: "string \<Rightarrow> filesystem \<Rightarrow> outcome" where
  "open_append path fs =
     (if path = [] then Inl (OSError ENOENT, fs)
      else if path \<in> dirs fs then Inl (OSError EISDIR, fs)
      else if (\<exists>c \<in> set (dirname path). c \<noteq> CHR ''/'') \<and> files fs (dirname path) \<noteq> None
        then Inl (OSError ENOTDIR, fs)
      else if (\<exists>c \<in> set (dirname path). c \<noteq> CHR ''/'') \<and> dirname path \<notin> dirs fs
        then Inl (OSError ENOENT, fs)
      else Inr (case files fs path of
                  None \<Rightarrow> fs\<lparr>files := (files fs)(path \<mapsto> [])\<rparr>
                | Some text \<Rightarrow> fs))"

text \<open>\<open>outfile.write(text)\<close> on a file opened for appending.\<close>

definition file_write :: "string \<Rightarrow> string \<Rightarrow> filesystem \<Rightarrow> filesystem" where
  "file_write path text fs =
     (case files fs path of
        None \<Rightarrow> fs
      | Some old \<Rightarrow> fs\<lparr>files := (files fs)(path \<mapsto> old @ text)\<rparr>)"

section \<open>Writing reads to a target\<close>

definition nl :: string where
  "nl = [CHR 0x0A]"

text \<open>
  The two record formats: a FASTA record is \<open>>\<close>, the identifier, a line feed, the
  sequence, a line feed; a FASTQ record is an at sign, the identifier, the sequence, a
  line holding \<open>+\<close> and the quality string, each followed by a line feed.
\<close>

definition fasta_record :: "string \<Rightarrow> string \<Rightarrow> string" where
  "fasta_record ID Seq = ''>'' @ ID @ nl @ Seq @ nl"

definition fastq_record :: "string \<Rightarrow> string \<Rightarrow> string \<Rightarrow> string" where
  "fastq_record ID Seq Qual = ''@'' @ ID @ nl @ Seq @ nl @ ''+'' @ nl @ Qual @ nl"

definition target_file :: "string \<Rightarrow> string \<Rightarrow> string" where
  "target_file target suffix = os_path_join target (target @ suffix)"

definition write_paired_seqs ::
  "string \<Rightarrow> string \<Rightarrow> string \<Rightarrow> string \<Rightarrow> string \<Rightarrow> string \<Rightarrow> string \<Rightarrow> bool \<Rightarrow> bool
     \<Rightarrow> filesystem \<Rightarrow> outcome" where
  "write_paired_seqs target ID1 Seq1 Qual1 ID2 Seq2 Qual2 single merged fs =
     and_then (mkdir_p target fs) (\<lambda>fs.
       if single then
         and_then
           (if merged then
              and_then (open_append (target_file target ''_interleaved.fastq'') fs) (\<lambda>fs.
                Inr (file_write (target_file target ''_interleaved.fastq'')
                       (fastq_record ID2 Seq2 Qual2)
                    (file_write (target_file target ''_interleaved.fastq'')
                       (fastq_record ID1 Seq1 Qual1) fs)))
            else Inr fs)
           (\<lambda>fs.
              and_then (open_append (target_file target ''_interleaved.fasta'') fs) (\<lambda>fs.
                Inr (file_write (target_file target ''_interleaved.fasta'')
                       (fasta_record ID2 Seq2)
                    (file_write (target_file target ''_interleaved.fasta'')
                       (fasta_record ID1 Seq1) fs))))
       else
         and_then (open_append (target_file target ''_1.fasta'') fs) (\<lambda>fs.
           and_then
             (open_append (target_file target ''_2.fasta'')
                (file_write (target_file target ''_1.fasta'') (fasta_record ID1 Seq1) fs))
             (\<lambda>fs. Inr (file_write (target_file target ''_2.fasta'')
                           (fasta_record ID2 Seq2) fs))))"

definition write_single_seqs :: "string \<Rightarrow> string \<Rightarrow> string \<Rightarrow> filesystem \<Rightarrow> outcome" where
  "write_single_seqs target ID1 Seq1 fs =
     and_then (mkdir_p target fs) (\<lambda>fs.
       and_then (open_append (target_file target ''_unpaired.fasta'') fs) (\<lambda>fs.
         Inr (file_write (target_file target ''_unpaired.fasta'') (fasta_record ID1 Seq1) fs)))"

section \<open>The read distributor\<close>

text \<open>
  A read source is the list of records that \<open>FastqGeneralIterator\<close> yields from the
  file: title line, sequence, quality string.
\<close>

type_synonym fastq = "string \<times> string \<times> string"

text \<open>
  The identifier clean-up of the single-end branch tests for the one-character
  suffixes \<open>"\1"\<close> and \<open>"\2"\<close> (Python reads the escapes as the characters 1 and 2) and
  cuts two characters; the paired-end branch tests for \<open>"/1"\<close> and \<open>"/2"\<close>.
\<close>

definition single_end_id :: "string \<Rightarrow> string" where
  "single_end_id ID1 =
     (if endswith ID1 [CHR 0x01] \<or> endswith ID1 [CHR 0x02]
      then take (length ID1 - 2) ID1 else ID1)"

definition paired_end_id :: "string \<Rightarrow> string" where
  "paired_end_id ID =
     (if endswith ID ''/1'' \<or> endswith ID ''/2'' then take (length ID - 2) ID else ID)"

definition single_end_body :: "hit_dict \<Rightarrow> fastq \<Rightarrow> filesystem \<Rightarrow> outcome" where
  "single_end_body read_hit_dict record fs =
     (case record of (ID1_long, Seq1, Qual1) \<Rightarrow>
        (case split_ws ID1_long of
           [] \<Rightarrow> Inl (IndexError, fs)
         | ID1 # _ \<Rightarrow>
             (case read_hit_dict (single_end_id ID1) of
                Some targets \<Rightarrow>
                  for_each (\<lambda>target. write_single_seqs target (single_end_id ID1) Seq1) targets fs
              | None \<Rightarrow> Inr fs)))"

definition paired_end_body :: "hit_dict \<Rightarrow> bool \<Rightarrow> fastq \<Rightarrow> fastq \<Rightarrow> filesystem \<Rightarrow> outcome" where
  "paired_end_body read_hit_dict merged record1 record2 fs =
     (case record1 of (ID1_long, Seq1, Qual1) \<Rightarrow>
      case record2 of (ID2_long, Seq2, Qual2) \<Rightarrow>
        (case split_ws ID1_long of
           [] \<Rightarrow> Inl (IndexError, fs)
         | ID1 # _ \<Rightarrow>
             (case split_ws ID2_long of
                [] \<Rightarrow> Inl (IndexError, fs)
              | ID2 # _ \<Rightarrow>
                  (case read_hit_dict (paired_end_id ID1) of
                     Some targets \<Rightarrow>
                       for_each (\<lambda>target. write_paired_seqs target (paired_end_id ID1) Seq1 Qual1
                                    (paired_end_id ID2) Seq2 Qual2 True merged) targets fs
                   | None \<Rightarrow>
                       (case read_hit_dict (paired_end_id ID2) of
                          Some targets \<Rightarrow>
                            for_each (\<lambda>target. write_paired_seqs target (paired_end_id ID1) Seq1 Qual1
                                         (paired_end_id ID2) Seq2 Qual2 True merged) targets fs
                        | None \<Rightarrow> Inr fs)))))"

text \<open>
  The loop of lines 100 to 118. \<open>iterator2\<close> is \<open>None\<close> while the variable is unbound,
  otherwise the records the second iterator has not yielded yet.
\<close>

fun paired_end_loop ::
  "hit_dict \<Rightarrow> bool \<Rightarrow> fastq list \<Rightarrow> fastq list option \<Rightarrow> filesystem \<Rightarrow> outcome" where
  "paired_end_loop read_hit_dict merged [] iterator2 fs = Inr fs"
| "paired_end_loop read_hit_dict merged (record1 # iterator1) iterator2 fs =
     (case iterator2 of
        None \<Rightarrow> Inl (UnboundLocalError, fs)
      | Some [] \<Rightarrow> Inl (StopIteration, fs)
      | Some (record2 # rest2) \<Rightarrow>
          and_then (paired_end_body read_hit_dict merged record1 record2 fs)
            (paired_end_loop read_hit_dict merged iterator1 (Some rest2)))"

definition distribute_reads ::
  "fastq list list \<Rightarrow> hit_dict \<Rightarrow> bool \<Rightarrow> bool \<Rightarrow> filesystem \<Rightarrow> outcome" where
  "distribute_reads readfiles read_hit_dict single merged fs =
     (case readfiles of
        [] \<Rightarrow> Inl (IndexError, fs)
      | iterator1 # _ \<Rightarrow>
          if length readfiles = 1
          then for_each (single_end_body read_hit_dict) iterator1 fs
          else paired_end_loop read_hit_dict merged iterator1
                 (if length readfiles = 2 then Some (readfiles ! 1) else None) fs)"

section \<open>Auxiliary notions for the statements\<close>

text \<open>
  The target list of a read after more lines: the old list, then the new targets that
  are not in it, each once, in the order of their first occurrence.
\<close>

definition merged_targets :: "string list option \<Rightarrow> string list \<Rightarrow> string list option" where
  "merged_targets old new =
     (if new = [] then old
      else Some ((case old of None \<Rightarrow> [] | Some ts \<Rightarrow> ts) @
                 filter (\<lambda>t. t \<notin> set (case old of None \<Rightarrow> [] | Some ts \<Rightarrow> ts))
                   (first_occurrences new)))"


text \<open>
  The specification's pairing: the two sources zipped by position, the pairs processed
  in order.
\<close>

definition lockstep_run :: "hit_dict \<Rightarrow> bool \<Rightarrow> (fastq \<times> fastq) list \<Rightarrow> filesystem \<Rightarrow> outcome" where
  "lockstep_run read_hit_dict merged pairs =
     for_each (\<lambda>pair. paired_end_body read_hit_dict merged (fst pair) (snd pair)) pairs"

text \<open>
  A target of one path component: not empty and without a slash. A directory name is
  such a target other than \<open>.\<close> and \<open>..\<close>: it names a directory directly under the working
  directory, and for directory names different spellings are different directories and
  files.
\<close>

definition plain_name :: "string \<Rightarrow> bool" where
  "plain_name target = (target \<noteq> [] \<and> CHR ''/'' \<notin> set target)"

definition directory_name :: "string \<Rightarrow> bool" where
  "directory_name target = (plain_name target \<and> target \<noteq> ''.'' \<and> target \<noteq> ''..'')"

text \<open>The targets that occur in the hit index.\<close>

definition index_targets :: "hit_dict \<Rightarrow> string set" where
  "index_targets read_hit_dict =
     {t. \<exists>ID targets. read_hit_dict ID = Some targets \<and> t \<in> set targets}"

text \<open>
  A file system is ready for a set of targets when each of them is a directory name,
  no regular file sits at its name and none of its output paths is a directory.
\<close>

definition ready_for :: "string set \<Rightarrow> filesystem \<Rightarrow> bool" where
  "ready_for T fs =
     (\<forall>t \<in> T. directory_name t \<and> files fs t = None \<and>
               (\<forall>suffix. target_file t suffix \<notin> dirs fs))"

text \<open>
  Read files that a run gets through: one source whose headers all have a first field,
  or two sources, the first not longer than the second, whose paired headers all have
  a first field.
\<close>

definition readable :: "fastq list list \<Rightarrow> bool" where
  "readable readfiles =
     (case readfiles of
        [source] \<Rightarrow> (\<forall>r \<in> set source. split_ws (fst r) \<noteq> [])
      | [source1, source2] \<Rightarrow>
          length source1 \<le> length source2 \<and>
          (\<forall>pair \<in> set (zip source1 source2).
             split_ws (fst (fst pair)) \<noteq> [] \<and> split_ws (fst (snd pair)) \<noteq> [])
      | _ \<Rightarrow> False)"

text \<open>
  The specification's account of what a run writes: the text that goes to the file at
  \<open>path\<close> for one single-end record, for one pair, and for a whole run. A read that
  is in the hit index gives one FASTA record to the unpaired file of each of its
  targets; a pair gives its two FASTA records, mate 1 first, to the interleaved FASTA
  file of each target and, with \<open>merged\<close>, its two FASTQ records to the interleaved
  FASTQ file.
\<close>

definition single_end_output :: "hit_dict \<Rightarrow> fastq \<Rightarrow> string \<Rightarrow> string" where
  "single_end_output read_hit_dict record path =
     (case record of (ID1_long, Seq1, Qual1) \<Rightarrow>
        (case split_ws ID1_long of
           [] \<Rightarrow> []
         | ID1 # _ \<Rightarrow>
             (case read_hit_dict (single_end_id ID1) of
                None \<Rightarrow> []
              | Some targets \<Rightarrow>
                  concat (map (\<lambda>t. if path = target_file t ''_unpaired.fasta''
                                     then fasta_record (single_end_id ID1) Seq1 else [])
                            targets))))"

definition pair_targets :: "hit_dict \<Rightarrow> string \<Rightarrow> string \<Rightarrow> string list option" where
  "pair_targets read_hit_dict ID1 ID2 =
     (case read_hit_dict ID1 of Some targets \<Rightarrow> Some targets | None \<Rightarrow> read_hit_dict ID2)"

definition paired_end_output :: "hit_dict \<Rightarrow> bool \<Rightarrow> fastq \<Rightarrow> fastq \<Rightarrow> string \<Rightarrow> string" where
  "paired_end_output read_hit_dict merged record1 record2 path =
     (case record1 of (ID1_long, Seq1, Qual1) \<Rightarrow>
      case record2 of (ID2_long, Seq2, Qual2) \<Rightarrow>
        (case split_ws ID1_long of
           [] \<Rightarrow> []
         | ID1 # _ \<Rightarrow>
             (case split_ws ID2_long of
                [] \<Rightarrow> []
              | ID2 # _ \<Rightarrow>
                  (case pair_targets read_hit_dict (paired_end_id ID1) (paired_end_id ID2) of
                     None \<Rightarrow> []
                   | Some targets \<Rightarrow>
                       concat (map (\<lambda>t.
                         if path = target_file t ''_interleaved.fasta''
                           then fasta_record (paired_end_id ID1) Seq1 @
                                fasta_record (paired_end_id ID2) Seq2
                         else if merged \<and> path = target_file t ''_interleaved.fastq''
                           then fastq_record (paired_end_id ID1) Seq1 Qual1 @
                                fastq_record (paired_end_id ID2) Seq2 Qual2
                         else []) targets)))))"

definition run_output :: "fastq list list \<Rightarrow> hit_dict \<Rightarrow> bool \<Rightarrow> string \<Rightarrow> string" where
  "run_output readfiles read_hit_dict merged path =
     (case readfiles of
        [source] \<Rightarrow> concat (map (\<lambda>r. single_end_output read_hit_dict r path) source)
      | [source1, source2] \<Rightarrow>
          concat (map (\<lambda>pair. paired_end_output read_hit_dict merged (fst pair) (snd pair) path)
                    (zip source1 source2))
      | _ \<Rightarrow> [])"

text \<open>Opening a file for appending and writing one text to it.\<close>

definition appending :: "string \<Rightarrow> string \<Rightarrow> filesystem \<Rightarrow> outcome" where
  "appending path text fs =
     and_then (open_append path fs) (\<lambda>fs. Inr (file_write path text fs))"

text \<open>The file system a run leaves behind, raised or not.\<close>

definition final_fs :: "outcome \<Rightarrow> filesystem" where
  "final_fs r = (case r of Inl (e, fs) \<Rightarrow> fs | Inr fs \<Rightarrow> fs)"

text \<open>
  \<open>extends fs fs'\<close>: nothing is removed or truncated on the way from \<open>fs\<close> to \<open>fs'\<close>;
  every directory and file stays and every file keeps its old content as a prefix.
  \<open>appends delta fs fs'\<close>: every file \<open>p\<close> has grown by exactly \<open>delta p\<close>.
\<close>

definition extends :: "filesystem \<Rightarrow> filesystem \<Rightarrow> bool" where
  "extends fs fs' =
     (dirs fs \<subseteq> dirs fs' \<and> dom (files fs) \<subseteq> dom (files fs') \<and>
      (\<forall>p. \<exists>suffix. content fs' p = content fs p @ suffix))"

definition appends :: "(string \<Rightarrow> string) \<Rightarrow> filesystem \<Rightarrow> filesystem \<Rightarrow> bool" where
  "appends delta fs fs' = (\<forall>p. content fs' p = content fs p @ delta p)"

definition names_within :: "filesystem \<Rightarrow> filesystem \<Rightarrow> bool" where
  "names_within fs fs' = (dirs fs \<subseteq> dirs fs' \<and> dom (files fs) \<subseteq> dom (files fs'))"

definition same_names :: "filesystem \<Rightarrow> filesystem \<Rightarrow> bool" where
  "same_names fs fs' = (dirs fs = dirs fs' \<and> dom (files fs) = dom (files fs'))"

text \<open>No path is a directory and a regular file at once.\<close>

definition disjoint_fs :: "filesystem \<Rightarrow> bool" where
  "disjoint_fs fs = (dirs fs \<inter> dom (files fs) = {})"

text \<open>
  An action on the file system is \<open>repeatable\<close> when it only ever appends, appends the
  same text to the same files whenever it returns, keeps directories and files apart,
  and returns again, creating nothing new, on any file system that already has the
  directories and files of a run that returned.
\<close>

definition repeatable :: "(filesystem \<Rightarrow> outcome) \<Rightarrow> bool" where
  "repeatable f =
     ((\<forall>fs. extends fs (final_fs (f fs))) \<and>
      (\<forall>fs fs'. f fs = Inr fs' \<longrightarrow> disjoint_fs fs \<longrightarrow> disjoint_fs fs') \<and>
      (\<exists>delta. \<forall>fs fs'. f fs = Inr fs' \<longrightarrow> appends delta fs fs') \<and>
      (\<forall>fs fs1 F fs2. f fs = Inr fs1 \<longrightarrow> names_within fs1 F \<longrightarrow> disjoint_fs F \<longrightarrow>
         same_names fs2 F \<longrightarrow> (\<exists>fs2'. f fs2 = Inr fs2' \<and> same_names fs2' F)))"

text \<open>\<open>touches_only S f\<close>: whatever \<open>f\<close> does, raising or not, the files outside \<open>S\<close> are as before.\<close>

definition touches_only :: "string set \<Rightarrow> (filesystem \<Rightarrow> outcome) \<Rightarrow> bool" where
  "touches_only S f = (\<forall>fs p. p \<notin> S \<longrightarrow> files (final_fs (f fs)) p = files fs p)"

section \<open>Properties of the string operations\<close>

lemma split_on_acc_nonempty: "split_on_acc sep w s \<noteq> []"
  by (induction s arbitrary: w) auto

lemma takeWhile_all: "\<forall>x \<in> set xs. P x \<Longrightarrow> takeWhile P xs = xs"
  by (induction xs) auto

lemma split_on_acc_last:
  "last (split_on_acc sep w s) =
     (if sep \<in> set s then rev (takeWhile (\<lambda>c. c \<noteq> sep) (rev s))
      else w @ s)"
proof (induction s arbitrary: w)
  case Nil
  then show ?case by simp
next
  case (Cons c cs)
  show ?case
  proof (cases "c = sep")
    case True
    have "takeWhile (\<lambda>c. c \<noteq> sep) (rev cs) = rev cs" if "sep \<notin> set cs"
      using that by (intro takeWhile_all) auto
    then show ?thesis using True Cons.IH [of "[]"] split_on_acc_nonempty [of sep "[]" cs]
      by (auto simp: takeWhile_append)
  next
    case False
    then show ?thesis using Cons.IH [of "w @ [c]"]
      by (auto simp: takeWhile_append)
  qed
qed

lemma last_split_on:
  "last (split_on sep s) = rev (takeWhile (\<lambda>c. c \<noteq> sep) (rev s))"
proof (cases "sep \<in> set s")
  case True
  then show ?thesis by (simp add: split_on_def split_on_acc_last)
next
  case False
  have "takeWhile (\<lambda>c. c \<noteq> sep) (rev s) = rev s"
    by (rule takeWhile_all) (use False in auto)
  then have "rev (takeWhile (\<lambda>c. c \<noteq> sep) (rev s)) = s"
    by (simp only: rev_rev_ident)
  moreover have "last (split_on sep s) = s"
    using False by (simp add: split_on_def split_on_acc_last)
  ultimately show ?thesis by (simp only:)
qed

section \<open>Properties of the hit index builder\<close>

lemma first_occurrences_Nil: "first_occurrences [] = []"
  by (simp add: first_occurrences_def)

lemma first_occurrences_Cons:
  "first_occurrences (x # xs) = x # filter (\<lambda>y. y \<noteq> x) (first_occurrences xs)"
proof -
  have snoc: "remdups (ys @ [x]) = filter (\<lambda>y. y \<noteq> x) (remdups ys) @ [x]" for ys
    by (induction ys) auto
  show ?thesis
    by (simp add: first_occurrences_def snoc rev_filter)
qed

lemma first_occurrences_set: "set (first_occurrences xs) = set xs"
  by (simp add: first_occurrences_def)

lemma first_occurrences_distinct: "distinct (first_occurrences xs)"
  by (simp add: first_occurrences_def)

lemma read_sorting_loop_fails:
  "\<exists>l \<in> set ls. length (split_ws l) < 3 \<Longrightarrow> read_sorting_loop ls d = Inl IndexError"
proof (induction ls arbitrary: d)
  case Nil
  then show ?case by simp
next
  case (Cons l ls)
  show ?case
  proof (cases "length (split_ws l) < 3")
    case True
    then show ?thesis by (auto simp: Let_def)
  next
    case False
    with Cons.prems have "\<exists>l \<in> set ls. length (split_ws l) < 3" by auto
    then show ?thesis using Cons.IH by (auto simp: Let_def split: option.splits)
  qed
qed

lemma read_sorting_loop_returns:
  "\<forall>l \<in> set ls. 3 \<le> length (split_ws l) \<Longrightarrow> \<exists>d'. read_sorting_loop ls d = Inr d'"
proof (induction ls arbitrary: d)
  case Nil
  then show ?case by simp
next
  case (Cons l ls)
  then show ?case by (auto simp: Let_def split: option.splits)
qed

lemma filter_absorb:
  "x \<in> set ts \<Longrightarrow> filter (\<lambda>t. t \<notin> set ts) (filter (\<lambda>y. y \<noteq> x) xs) = filter (\<lambda>t. t \<notin> set ts) xs"
  by (induction xs) auto

lemma filter_snoc:
  "filter (\<lambda>t. t \<notin> set (ts @ [x])) xs = filter (\<lambda>t. t \<notin> set ts) (filter (\<lambda>y. y \<noteq> x) xs)"
  by (induction xs) auto

lemma merged_targets_Cons_None:
  "merged_targets None (t # new) = merged_targets (Some [t]) new"
  by (cases new) (simp_all add: merged_targets_def first_occurrences_Cons first_occurrences_Nil)

lemma merged_targets_Cons_mem:
  "t \<in> set ts \<Longrightarrow> merged_targets (Some ts) (t # new) = merged_targets (Some ts) new"
  by (cases new)
    (simp_all add: merged_targets_def first_occurrences_Cons first_occurrences_Nil filter_absorb
       del: filter_filter)

lemma merged_targets_Cons_new:
  "t \<notin> set ts \<Longrightarrow> merged_targets (Some ts) (t # new) = merged_targets (Some (ts @ [t])) new"
  by (cases new)
    (simp_all add: merged_targets_def first_occurrences_Cons first_occurrences_Nil filter_snoc
       del: set_append filter_filter)

lemma read_sorting_loop_lookup:
  "read_sorting_loop ls d = Inr d' \<Longrightarrow>
   d' r = merged_targets (d r) (map line_target (filter (\<lambda>l. line_read l = r) ls))"
proof (induction ls arbitrary: d)
  case Nil
  then show ?case by (simp add: merged_targets_def)
next
  case (Cons l ls)
  let ?t = "line_target l"
  let ?r = "line_read l"
  let ?new = "map line_target (filter (\<lambda>l. line_read l = r) ls)"
  from Cons.prems have len: "\<not> length (split_ws l) \<le> 2"
    by (auto simp: Let_def split: if_splits)
  show ?case
  proof (cases "d ?r")
    case None
    with Cons.prems len have run: "read_sorting_loop ls (d(?r \<mapsto> [?t])) = Inr d'"
      by (auto simp: Let_def line_read_def line_target_def split: if_splits)
    show ?thesis
    proof (cases "r = ?r")
      case True
      then show ?thesis using Cons.IH [OF run] None
        by (simp add: merged_targets_Cons_None)
    next
      case False
      then show ?thesis using Cons.IH [OF run] by auto
    qed
  next
    case (Some ts)
    show ?thesis
    proof (cases "?t \<in> set ts")
      case True
      with Cons.prems len Some have run: "read_sorting_loop ls d = Inr d'"
        by (auto simp: Let_def line_read_def line_target_def split: if_splits)
      show ?thesis
      proof (cases "r = ?r")
        case True
        then show ?thesis using Cons.IH [OF run] Some \<open>?t \<in> set ts\<close>
          by (simp add: merged_targets_Cons_mem)
      next
        case False
        then show ?thesis using Cons.IH [OF run] by auto
      qed
    next
      case False
      with Cons.prems len Some
      have run: "read_sorting_loop ls (d(?r \<mapsto> ts @ [?t])) = Inr d'"
        by (auto simp: Let_def line_read_def line_target_def split: if_splits)
      show ?thesis
      proof (cases "r = ?r")
        case True
        then show ?thesis using Cons.IH [OF run] Some \<open>?t \<notin> set ts\<close>
          by (simp add: merged_targets_Cons_new)
      next
        case False
        then show ?thesis using Cons.IH [OF run] by auto
      qed
    qed
  qed
qed

lemma read_sorting_lookup:
  assumes "read_sorting ls = Inr d"
  shows "d r = (if r \<in> line_read ` set ls then Some (targets_of ls r) else None)"
proof -
  have "d r = merged_targets None (map line_target (filter (\<lambda>l. line_read l = r) ls))"
    using read_sorting_loop_lookup [of ls Map.empty d r] assms
    by (simp add: read_sorting_def)
  moreover have "(filter (\<lambda>l. line_read l = r) ls = []) = (r \<notin> line_read ` set ls)"
    by (auto simp: filter_empty_conv)
  ultimately show ?thesis
    by (auto simp: merged_targets_def targets_of_def)
qed


section \<open>Sequencing and the two loops\<close>

lemma and_then_Inr [simp]: "and_then (Inr fs) f = f fs"
  by (simp add: and_then_def)

lemma and_then_Inl [simp]: "and_then (Inl e) f = Inl e"
  by (simp add: and_then_def)

lemma and_then_assoc:
  "and_then (and_then r f) g = and_then r (\<lambda>fs. and_then (f fs) g)"
  by (cases r) simp_all

lemma zip_take_left: "zip (take (length ys) xs) ys = zip xs ys"
proof (induction xs arbitrary: ys)
  case Nil
  then show ?case by simp
next
  case (Cons x xs)
  then show ?case by (cases ys) simp_all
qed

lemma zip_take_right: "zip xs (take (length xs) ys) = zip xs ys"
proof (induction xs arbitrary: ys)
  case Nil
  then show ?case by simp
next
  case (Cons x xs)
  then show ?case by (cases ys) simp_all
qed

lemma paired_end_loop_prefix:
  "n \<le> length xs \<Longrightarrow> n \<le> length ys \<Longrightarrow>
   paired_end_loop d m xs (Some ys) fs =
     and_then (lockstep_run d m (zip (take n xs) (take n ys)) fs)
       (paired_end_loop d m (drop n xs) (Some (drop n ys)))"
proof (induction n arbitrary: xs ys fs)
  case 0
  then show ?case by (simp add: lockstep_run_def)
next
  case (Suc n)
  then obtain x xs' y ys' where xs: "xs = x # xs'" and ys: "ys = y # ys'"
    by (cases xs; cases ys) auto
  have "paired_end_loop d m xs' (Some ys') =
     (\<lambda>fs'. and_then (lockstep_run d m (zip (take n xs') (take n ys')) fs')
       (paired_end_loop d m (drop n xs') (Some (drop n ys'))))"
    using Suc.IH [of xs' ys'] Suc.prems xs ys by (intro ext) simp
  then show ?case
    by (simp add: xs ys lockstep_run_def and_then_assoc)
qed

lemma and_then_return: "and_then r Inr = r"
  by (cases r) simp_all

lemma paired_end_loop_source1_shorter:
  "length xs \<le> length ys \<Longrightarrow>
   paired_end_loop d m xs (Some ys) fs = lockstep_run d m (zip xs ys) fs"
proof -
  assume le: "length xs \<le> length ys"
  have "paired_end_loop d m [] (Some (drop (length xs) ys)) = Inr"
    by (rule ext) simp
  then show ?thesis
    using paired_end_loop_prefix [of "length xs" xs ys d m fs] le
      zip_take_right [of xs ys]
    by (simp add: and_then_return)
qed

lemma paired_end_loop_source2_shorter:
  "length ys < length xs \<Longrightarrow>
   paired_end_loop d m xs (Some ys) fs =
     and_then (lockstep_run d m (zip xs ys) fs) (\<lambda>fs'. Inl (StopIteration, fs'))"
proof -
  assume less: "length ys < length xs"
  then obtain x rest where dr: "drop (length ys) xs = x # rest"
    by (cases "drop (length ys) xs") auto
  have "paired_end_loop d m (drop (length ys) xs) (Some []) = (\<lambda>fs'. Inl (StopIteration, fs'))"
    by (rule ext) (simp add: dr)
  then show ?thesis
    using paired_end_loop_prefix [of "length ys" xs ys d m fs] less
    by (simp add: zip_take_left)
qed

lemma distribute_reads_unbound:
  "3 \<le> length readfiles \<Longrightarrow>
   distribute_reads readfiles d single merged fs =
     (if readfiles ! 0 = [] then Inr fs else Inl (UnboundLocalError, fs))"
  by (cases readfiles; cases "hd readfiles") (auto simp: distribute_reads_def)

lemma distribute_reads_two:
  "distribute_reads [xs, ys] d single merged fs = paired_end_loop d merged xs (Some ys) fs"
  by (simp add: distribute_reads_def)

lemma distribute_reads_one:
  "distribute_reads [xs] d single merged fs = for_each (single_end_body d) xs fs"
  by (simp add: distribute_reads_def)



section \<open>Repeatable actions\<close>

lemma and_then_eq_Inr:
  "and_then r g = Inr fs' \<longleftrightarrow> (\<exists>m. r = Inr m \<and> g m = Inr fs')"
  by (cases r) simp_all

lemma final_fs_Inr [simp]: "final_fs (Inr fs) = fs"
  by (simp add: final_fs_def)

lemma final_fs_Inl [simp]: "final_fs (Inl (e, fs)) = fs"
  by (simp add: final_fs_def)

lemma extends_refl: "extends fs fs"
  by (simp add: extends_def)

lemma extends_trans:
  assumes ab: "extends a b" and bc: "extends b c"
  shows "extends a c"
proof -
  have "dirs a \<subseteq> dirs c"
    using ab bc unfolding extends_def by blast
  moreover have "dom (files a) \<subseteq> dom (files c)"
    using ab bc unfolding extends_def by blast
  moreover have "\<exists>suffix. content c p = content a p @ suffix" for p
  proof -
    from ab obtain s1 where "content b p = content a p @ s1"
      unfolding extends_def by blast
    moreover from bc obtain s2 where "content c p = content b p @ s2"
      unfolding extends_def by blast
    ultimately have "content c p = content a p @ (s1 @ s2)" by simp
    then show ?thesis by blast
  qed
  ultimately show ?thesis unfolding extends_def by blast
qed

lemma extends_names_within: "extends a b \<Longrightarrow> names_within a b"
  by (simp add: extends_def names_within_def)

lemma names_within_trans: "names_within a b \<Longrightarrow> names_within b c \<Longrightarrow> names_within a c"
  unfolding names_within_def by blast

lemma appends_trans:
  "appends d1 a b \<Longrightarrow> appends d2 b c \<Longrightarrow> appends (\<lambda>p. d1 p @ d2 p) a c"
  by (simp add: appends_def)

lemma repeatable_Inr: "repeatable Inr"
  unfolding repeatable_def
  by (auto simp: extends_refl appends_def intro: exI [of _ "\<lambda>p. []"])

lemma repeatable_raise: "repeatable (\<lambda>fs. Inl (e, fs))"
  unfolding repeatable_def
  by (auto simp: extends_refl)

lemma repeatable_extends: "repeatable f \<Longrightarrow> extends fs (final_fs (f fs))"
  by (simp add: repeatable_def)

lemma repeatable_and_then:
  assumes f: "repeatable f" and g: "repeatable g"
  shows "repeatable (\<lambda>fs. and_then (f fs) g)"
  unfolding repeatable_def
proof (intro conjI allI impI)
  fix fs
  show "extends fs (final_fs (and_then (f fs) g))"
  proof (cases "f fs")
    case (Inl e)
    with repeatable_extends [OF f, of fs] show ?thesis by simp
  next
    case (Inr m)
    with repeatable_extends [OF f, of fs] repeatable_extends [OF g, of m]
    show ?thesis by (auto intro: extends_trans)
  qed
next
  fix fs fs'
  assume run: "and_then (f fs) g = Inr fs'" and dis: "disjoint_fs fs"
  then obtain m where m: "f fs = Inr m" "g m = Inr fs'"
    by (auto simp: and_then_eq_Inr)
  from f m(1) dis have "disjoint_fs m" unfolding repeatable_def by blast
  with g m(2) show "disjoint_fs fs'" unfolding repeatable_def by blast
next
  from f obtain df where df: "\<And>fs fs'. f fs = Inr fs' \<Longrightarrow> appends df fs fs'"
    unfolding repeatable_def by blast
  from g obtain dg where dg: "\<And>fs fs'. g fs = Inr fs' \<Longrightarrow> appends dg fs fs'"
    unfolding repeatable_def by blast
  have "appends (\<lambda>p. df p @ dg p) fs fs'" if "and_then (f fs) g = Inr fs'" for fs fs'
  proof -
    from that obtain m where m: "f fs = Inr m" "g m = Inr fs'"
      by (auto simp: and_then_eq_Inr)
    show ?thesis by (rule appends_trans [OF df [OF m(1)] dg [OF m(2)]])
  qed
  then show "\<exists>delta. \<forall>fs fs'. and_then (f fs) g = Inr fs' \<longrightarrow> appends delta fs fs'"
    by blast
next
  fix fs fs1 F fs2
  assume run: "and_then (f fs) g = Inr fs1" and within: "names_within fs1 F"
    and dis: "disjoint_fs F" and same: "same_names fs2 F"
  from run obtain m where m: "f fs = Inr m" "g m = Inr fs1"
    by (auto simp: and_then_eq_Inr)
  have "names_within m fs1"
    using repeatable_extends [OF g, of m] m(2) by (simp add: extends_names_within)
  then have "names_within m F" using within by (rule names_within_trans)
  with f m(1) dis same obtain m2 where m2: "f fs2 = Inr m2" "same_names m2 F"
    unfolding repeatable_def by blast
  from g m(2) within dis m2(2) obtain fs2' where "g m2 = Inr fs2'" "same_names fs2' F"
    unfolding repeatable_def by blast
  with m2(1) show "\<exists>fs2'. and_then (f fs2) g = Inr fs2' \<and> same_names fs2' F"
    by simp
qed

lemma repeatable_for_each:
  assumes "\<And>x. repeatable (body x)"
  shows "repeatable (for_each body xs)"
proof (induction xs)
  case Nil
  have "for_each body [] = Inr" by (rule ext) simp
  then show ?case by (simp add: repeatable_Inr)
next
  case (Cons x xs)
  have "for_each body (x # xs) = (\<lambda>fs. and_then (body x fs) (for_each body xs))"
    by (rule ext) simp
  then show ?case using repeatable_and_then [OF assms [of x] Cons.IH] by simp
qed


lemma content_update:
  "content (fs\<lparr>files := (files fs)(p \<mapsto> text)\<rparr>) q = (if q = p then text else content fs q)"
  by (simp add: content_def)

lemma content_dirs_update [simp]: "content (fs\<lparr>dirs := D\<rparr>) q = content fs q"
  by (simp add: content_def)

lemma mkdir_p_Inr:
  "mkdir_p t fs = Inr fs' \<longleftrightarrow>
     t \<noteq> [] \<and>
     (if t \<in> dirs fs then fs' = fs
      else files fs t = None \<and> (\<forall>a \<in> set (ancestors t). files fs a = None) \<and>
           fs' = fs\<lparr>dirs := dirs fs \<union> set (ancestors t) \<union> {t}\<rparr>)"
  by (auto simp: mkdir_p_def makedirs_def isdir_def)

lemma mkdir_p_final:
  "final_fs (mkdir_p t fs) = fs \<or>
   final_fs (mkdir_p t fs) = fs\<lparr>dirs := dirs fs \<union> set (ancestors t) \<union> {t}\<rparr>"
  by (auto simp: mkdir_p_def makedirs_def isdir_def)

lemma repeatable_mkdir_p: "repeatable (mkdir_p t)"
  unfolding repeatable_def
proof (intro conjI allI impI)
  fix fs
  show "extends fs (final_fs (mkdir_p t fs))"
    using mkdir_p_final [of t fs] by (auto simp: extends_def)
next
  fix fs fs'
  assume "mkdir_p t fs = Inr fs'" "disjoint_fs fs"
  then show "disjoint_fs fs'"
    by (auto simp: mkdir_p_Inr disjoint_fs_def split: if_splits)
next
  have "appends (\<lambda>p. []) fs fs'" if "mkdir_p t fs = Inr fs'" for fs fs'
    using that by (auto simp: mkdir_p_Inr appends_def split: if_splits)
  then show "\<exists>delta. \<forall>fs fs'. mkdir_p t fs = Inr fs' \<longrightarrow> appends delta fs fs'"
    by blast
next
  fix fs fs1 F fs2
  assume run: "mkdir_p t fs = Inr fs1" and within: "names_within fs1 F"
    and dis: "disjoint_fs F" and same: "same_names fs2 F"
  from run have "t \<noteq> []" "t \<in> dirs fs1"
    by (auto simp: mkdir_p_Inr split: if_splits)
  with within same have "t \<in> dirs fs2"
    by (auto simp: names_within_def same_names_def)
  with \<open>t \<noteq> []\<close> have "mkdir_p t fs2 = Inr fs2"
    by (simp add: mkdir_p_Inr)
  with same show "\<exists>fs2'. mkdir_p t fs2 = Inr fs2' \<and> same_names fs2' F"
    by blast
qed

lemma open_append_Inr:
  "open_append p fs = Inr fs' \<longleftrightarrow>
     p \<noteq> [] \<and> p \<notin> dirs fs \<and>
     ((\<exists>c \<in> set (dirname p). c \<noteq> CHR ''/'') \<longrightarrow> files fs (dirname p) = None \<and> dirname p \<in> dirs fs) \<and>
     fs' = (case files fs p of None \<Rightarrow> fs\<lparr>files := (files fs)(p \<mapsto> [])\<rparr> | Some text \<Rightarrow> fs)"
  by (auto simp: open_append_def)

lemma appending_Inr:
  "appending p data fs = Inr fs' \<longleftrightarrow>
     p \<noteq> [] \<and> p \<notin> dirs fs \<and>
     ((\<exists>c \<in> set (dirname p). c \<noteq> CHR ''/'') \<longrightarrow> files fs (dirname p) = None \<and> dirname p \<in> dirs fs) \<and>
     fs' = fs\<lparr>files := (files fs)(p \<mapsto> content fs p @ data)\<rparr>"
  by (cases "files fs p")
    (auto simp: appending_def and_then_eq_Inr open_append_Inr file_write_def content_def)

lemma appending_final:
  "final_fs (appending p data fs) = fs \<or>
   final_fs (appending p data fs) = fs\<lparr>files := (files fs)(p \<mapsto> content fs p @ data)\<rparr>"
proof (cases "appending p data fs")
  case (Inl e)
  then have "final_fs (appending p data fs) = fs"
    by (auto simp: appending_def open_append_def and_then_def split: if_splits)
  then show ?thesis by simp
next
  case (Inr fs')
  then have "fs' = fs\<lparr>files := (files fs)(p \<mapsto> content fs p @ data)\<rparr>"
    by (simp add: appending_Inr)
  with Inr show ?thesis by simp
qed

lemma extends_append_file: "extends fs (fs\<lparr>files := (files fs)(p \<mapsto> content fs p @ data)\<rparr>)"
  by (auto simp: extends_def content_update)

lemma repeatable_appending: "repeatable (appending p data)"
  unfolding repeatable_def
proof (intro conjI allI impI)
  fix fs
  show "extends fs (final_fs (appending p data fs))"
    using appending_final [of p data fs] by (auto simp: extends_refl extends_append_file)
next
  fix fs fs'
  assume "appending p data fs = Inr fs'" "disjoint_fs fs"
  then show "disjoint_fs fs'"
    by (auto simp: appending_Inr disjoint_fs_def)
next
  have "appends (\<lambda>q. if q = p then data else []) fs fs'"
    if "appending p data fs = Inr fs'" for fs fs'
    using that by (auto simp: appending_Inr appends_def content_update)
  then show "\<exists>delta. \<forall>fs fs'. appending p data fs = Inr fs' \<longrightarrow> appends delta fs fs'"
    by blast
next
  fix fs fs1 F fs2
  assume run: "appending p data fs = Inr fs1" and within: "names_within fs1 F"
    and dis: "disjoint_fs F" and same: "same_names fs2 F"
  from run have p: "p \<noteq> []" "p \<in> dom (files fs1)"
    and par: "(\<exists>c \<in> set (dirname p). c \<noteq> CHR ''/'') \<longrightarrow> dirname p \<in> dirs fs1"
    by (auto simp: appending_Inr)
  from p within have pF: "p \<in> dom (files F)" by (auto simp: names_within_def)
  with dis have "p \<notin> dirs F" by (auto simp: disjoint_fs_def)
  with same have a: "p \<notin> dirs fs2" by (simp add: same_names_def)
  have b: "files fs2 (dirname p) = None \<and> dirname p \<in> dirs fs2"
    if "\<exists>c \<in> set (dirname p). c \<noteq> CHR ''/''"
  proof -
    from that par within have "dirname p \<in> dirs F" by (auto simp: names_within_def)
    moreover from this dis have "dirname p \<notin> dom (files F)" by (auto simp: disjoint_fs_def)
    ultimately show ?thesis using same by (auto simp: same_names_def)
  qed
  let ?fs2' = "fs2\<lparr>files := (files fs2)(p \<mapsto> content fs2 p @ data)\<rparr>"
  have "appending p data fs2 = Inr ?fs2'"
    using p(1) a b by (simp add: appending_Inr)
  moreover have "same_names ?fs2' F"
    using same pF by (auto simp: same_names_def)
  ultimately show "\<exists>fs2'. appending p data fs2 = Inr fs2' \<and> same_names fs2' F"
    by blast
qed


lemma appending_twice:
  "and_then (open_append p fs) (\<lambda>fs. Inr (file_write p b (file_write p a fs))) =
   appending p (a @ b) fs"
proof (cases "open_append p fs")
  case (Inl e)
  then show ?thesis by (simp add: appending_def)
next
  case (Inr fs1)
  then have "files fs1 p \<noteq> None"
    by (auto simp: open_append_Inr split: option.splits)
  then obtain old where "files fs1 p = Some old" by blast
  then have "file_write p b (file_write p a fs1) = file_write p (a @ b) fs1"
    by (simp add: file_write_def)
  with Inr show ?thesis by (simp add: appending_def)
qed

lemma appending_fold:
  "(\<lambda>fs. and_then (open_append p fs) (\<lambda>fs. Inr (file_write p a fs))) = appending p a"
  by (rule ext) (simp add: appending_def)

lemma write_single_seqs_eq:
  "write_single_seqs target ID1 Seq1 =
     (\<lambda>fs. and_then (mkdir_p target fs)
        (appending (target_file target ''_unpaired.fasta'') (fasta_record ID1 Seq1)))"
  by (rule ext) (simp add: write_single_seqs_def appending_fold)

lemma write_paired_seqs_eq:
  "write_paired_seqs target ID1 Seq1 Qual1 ID2 Seq2 Qual2 single merged =
     (\<lambda>fs. and_then (mkdir_p target fs)
        (if single then
           (\<lambda>fs. and_then
              ((if merged
                then appending (target_file target ''_interleaved.fastq'')
                       (fastq_record ID1 Seq1 Qual1 @ fastq_record ID2 Seq2 Qual2)
                else Inr) fs)
              (appending (target_file target ''_interleaved.fasta'')
                 (fasta_record ID1 Seq1 @ fasta_record ID2 Seq2)))
         else
           (\<lambda>fs. and_then (appending (target_file target ''_1.fasta'') (fasta_record ID1 Seq1) fs)
              (appending (target_file target ''_2.fasta'') (fasta_record ID2 Seq2)))))"
proof (rule ext)
  fix fs
  have split2: "and_then (open_append p1 fs1) (\<lambda>fs. and_then (open_append p2 (file_write p1 a fs)) g)
      = and_then (appending p1 a fs1) (\<lambda>fs. and_then (open_append p2 fs) g)" for p1 p2 a fs1 g
    by (cases "open_append p1 fs1") (simp_all add: appending_def)
  have twice: "(\<lambda>fs. and_then (open_append p fs) (\<lambda>fs. Inr (file_write p b (file_write p a fs))))
      = appending p (a @ b)" for p a b
    by (rule ext) (rule appending_twice)
  show "write_paired_seqs target ID1 Seq1 Qual1 ID2 Seq2 Qual2 single merged fs =
     and_then (mkdir_p target fs)
        (if single then
           (\<lambda>fs. and_then
              ((if merged
                then appending (target_file target ''_interleaved.fastq'')
                       (fastq_record ID1 Seq1 Qual1 @ fastq_record ID2 Seq2 Qual2)
                else Inr) fs)
              (appending (target_file target ''_interleaved.fasta'')
                 (fasta_record ID1 Seq1 @ fasta_record ID2 Seq2)))
         else
           (\<lambda>fs. and_then (appending (target_file target ''_1.fasta'') (fasta_record ID1 Seq1) fs)
              (appending (target_file target ''_2.fasta'') (fasta_record ID2 Seq2))))"
    unfolding write_paired_seqs_def
    by (cases single; cases merged)
       (simp_all add: split2 appending_fold twice appending_twice)
qed

lemma repeatable_write_single_seqs: "repeatable (write_single_seqs target ID1 Seq1)"
  unfolding write_single_seqs_eq
  by (intro repeatable_and_then repeatable_mkdir_p repeatable_appending)

lemma repeatable_write_paired_seqs:
  "repeatable (write_paired_seqs target ID1 Seq1 Qual1 ID2 Seq2 Qual2 single merged)"
  unfolding write_paired_seqs_eq
  by (cases single; cases merged)
     (auto intro!: repeatable_and_then repeatable_mkdir_p repeatable_appending repeatable_Inr)

lemma repeatable_single_end_body: "repeatable (single_end_body d rcd)"
proof -
  obtain ID1_long Seq1 Qual1 where r: "rcd = (ID1_long, Seq1, Qual1)"
    by (cases rcd) auto
  show ?thesis
  proof (cases "split_ws ID1_long")
    case Nil
    then have "single_end_body d rcd = (\<lambda>fs. Inl (IndexError, fs))"
      by (intro ext) (simp add: single_end_body_def r)
    then show ?thesis by (simp add: repeatable_raise)
  next
    case (Cons ID1 rest)
    show ?thesis
    proof (cases "d (single_end_id ID1)")
      case None
      with Cons have "single_end_body d rcd = Inr"
        by (intro ext) (simp add: single_end_body_def r)
      then show ?thesis by (simp add: repeatable_Inr)
    next
      case (Some targets)
      with Cons have "single_end_body d rcd =
          for_each (\<lambda>target. write_single_seqs target (single_end_id ID1) Seq1) targets"
        by (intro ext) (simp add: single_end_body_def r)
      then show ?thesis
        by (simp add: repeatable_for_each repeatable_write_single_seqs)
    qed
  qed
qed

lemma paired_end_body_cases:
  "(\<exists>e. paired_end_body d merged rcd1 rcd2 = (\<lambda>fs. Inl (e, fs))) \<or>
   paired_end_body d merged rcd1 rcd2 = Inr \<or>
   (\<exists>ID1 Seq1 Qual1 ID2 Seq2 Qual2 targets.
      paired_end_body d merged rcd1 rcd2 =
        for_each (\<lambda>target. write_paired_seqs target ID1 Seq1 Qual1 ID2 Seq2 Qual2 True merged)
          targets)"
proof -
  obtain ID1_long Seq1 Qual1 where r1: "rcd1 = (ID1_long, Seq1, Qual1)"
    by (cases rcd1) auto
  obtain ID2_long Seq2 Qual2 where r2: "rcd2 = (ID2_long, Seq2, Qual2)"
    by (cases rcd2) auto
  show ?thesis
  proof (cases "split_ws ID1_long")
    case Nil
    then have "paired_end_body d merged rcd1 rcd2 = (\<lambda>fs. Inl (IndexError, fs))"
      by (intro ext) (simp add: paired_end_body_def r1 r2)
    then show ?thesis by blast
  next
    case c1: (Cons ID1 rest1)
    show ?thesis
    proof (cases "split_ws ID2_long")
      case Nil
      with c1 have "paired_end_body d merged rcd1 rcd2 = (\<lambda>fs. Inl (IndexError, fs))"
        by (intro ext) (simp add: paired_end_body_def r1 r2)
      then show ?thesis by blast
    next
      case c2: (Cons ID2 rest2)
      show ?thesis
      proof (cases "d (paired_end_id ID1)")
        case (Some targets)
        with c1 c2 have "paired_end_body d merged rcd1 rcd2 =
          for_each (\<lambda>target. write_paired_seqs target (paired_end_id ID1) Seq1 Qual1
                       (paired_end_id ID2) Seq2 Qual2 True merged) targets"
          by (intro ext) (simp add: paired_end_body_def r1 r2)
        then show ?thesis by blast
      next
        case n1: None
        show ?thesis
        proof (cases "d (paired_end_id ID2)")
          case (Some targets)
          with c1 c2 n1 have "paired_end_body d merged rcd1 rcd2 =
            for_each (\<lambda>target. write_paired_seqs target (paired_end_id ID1) Seq1 Qual1
                         (paired_end_id ID2) Seq2 Qual2 True merged) targets"
            by (intro ext) (simp add: paired_end_body_def r1 r2)
          then show ?thesis by blast
        next
          case None
          with c1 c2 n1 have "paired_end_body d merged rcd1 rcd2 = Inr"
            by (intro ext) (simp add: paired_end_body_def r1 r2)
          then show ?thesis by blast
        qed
      qed
    qed
  qed
qed

lemma repeatable_paired_end_body: "repeatable (paired_end_body d merged rcd1 rcd2)"
  using paired_end_body_cases [of d merged rcd1 rcd2]
  by (auto simp: repeatable_raise repeatable_Inr repeatable_for_each repeatable_write_paired_seqs)

lemma repeatable_paired_end_loop: "repeatable (paired_end_loop d merged iterator1 iterator2)"
proof (induction iterator1 arbitrary: iterator2)
  case Nil
  have "paired_end_loop d merged [] iterator2 = Inr" by (rule ext) simp
  then show ?case by (simp add: repeatable_Inr)
next
  case (Cons rcd1 iterator1)
  show ?case
  proof (cases iterator2)
    case None
    then have "paired_end_loop d merged (rcd1 # iterator1) iterator2 =
        (\<lambda>fs. Inl (UnboundLocalError, fs))"
      by (intro ext) simp
    then show ?thesis by (simp add: repeatable_raise)
  next
    case (Some source2)
    show ?thesis
    proof (cases source2)
      case Nil
      with Some have "paired_end_loop d merged (rcd1 # iterator1) iterator2 =
          (\<lambda>fs. Inl (StopIteration, fs))"
        by (intro ext) simp
      then show ?thesis by (simp add: repeatable_raise)
    next
      case (Cons rcd2 rest2)
      with Some have "paired_end_loop d merged (rcd1 # iterator1) iterator2 =
          (\<lambda>fs. and_then (paired_end_body d merged rcd1 rcd2 fs)
                  (paired_end_loop d merged iterator1 (Some rest2)))"
        by (intro ext) simp
      then show ?thesis
        using repeatable_and_then [OF repeatable_paired_end_body Cons.IH] by simp
    qed
  qed
qed

lemma repeatable_distribute_reads: "repeatable (distribute_reads readfiles d single merged)"
proof (cases readfiles)
  case Nil
  then have "distribute_reads readfiles d single merged = (\<lambda>fs. Inl (IndexError, fs))"
    by (intro ext) (simp add: distribute_reads_def)
  then show ?thesis by (simp add: repeatable_raise)
next
  case (Cons iterator1 rest)
  show ?thesis
  proof (cases "length readfiles = 1")
    case True
    with Cons have "distribute_reads readfiles d single merged = for_each (single_end_body d) iterator1"
      by (intro ext) (simp add: distribute_reads_def)
    then show ?thesis by (simp add: repeatable_for_each repeatable_single_end_body)
  next
    case False
    with Cons have "distribute_reads readfiles d single merged =
       paired_end_loop d merged iterator1
         (if length readfiles = 2 then Some (readfiles ! 1) else None)"
      by (intro ext) (simp add: distribute_reads_def)
    then show ?thesis by (simp only: repeatable_paired_end_loop)
  qed
qed

section \<open>Targets of one path component\<close>

lemma dropWhile_skip: "\<forall>x \<in> set xs. P x \<Longrightarrow> dropWhile P (xs @ ys) = dropWhile P ys"
  by (induction xs) auto

lemma plain_ancestors: "plain_name t \<Longrightarrow> ancestors t = []"
proof -
  assume "plain_name t"
  then have "t ! i \<noteq> CHR ''/''" if "i < length t" for i
    using that by (metis nth_mem plain_name_def)
  then show ?thesis
    by (auto simp: ancestors_def filter_empty_conv)
qed

lemma plain_target_file: "plain_name t \<Longrightarrow> target_file t sfx = t @ ''/'' @ t @ sfx"
  unfolding target_file_def os_path_join_def plain_name_def
  by (cases t) (auto simp: last_in_set dest: last_in_set)

lemma dirname_plain:
  assumes "plain_name t" and "CHR ''/'' \<notin> set rest"
  shows "dirname (t @ ''/'' @ rest) = t"
proof -
  have t: "t \<noteq> []" "CHR ''/'' \<notin> set t" using assms(1) by (auto simp: plain_name_def)
  have "dropWhile (\<lambda>c. c \<noteq> CHR ''/'') (rev rest @ CHR ''/'' # rev t) =
        dropWhile (\<lambda>c. c \<noteq> CHR ''/'') (CHR ''/'' # rev t)"
    by (rule dropWhile_skip) (use assms(2) in auto)
  then have "dropWhile (\<lambda>c. c \<noteq> CHR ''/'') (rev rest @ CHR ''/'' # rev t) = CHR ''/'' # rev t"
    by simp
  then have head: "rev (dropWhile (\<lambda>c. c \<noteq> CHR ''/'') (rev (t @ ''/'' @ rest))) = t @ ''/''"
    by simp
  have "dropWhile (\<lambda>c. c = CHR ''/'') (rev t) = rev t"
    using t by (cases "rev t") (auto simp: hd_rev dest: last_in_set)
  then have strip: "rev (dropWhile (\<lambda>c. c = CHR ''/'') (rev (t @ ''/''))) = t"
    by simp
  have nontrivial: "\<exists>c \<in> set (t @ ''/''). c \<noteq> CHR ''/''"
    using t by (cases t) auto
  show ?thesis
    unfolding dirname_def Let_def head
    using nontrivial strip by simp
qed

lemma plain_dirname:
  "plain_name t \<Longrightarrow> CHR ''/'' \<notin> set sfx \<Longrightarrow> dirname (target_file t sfx) = t"
  using dirname_plain [of t "t @ sfx"]
  by (simp add: plain_target_file plain_name_def)

lemma plain_target_file_not_plain:
  "plain_name t \<Longrightarrow> plain_name t' \<Longrightarrow> target_file t sfx \<noteq> t'"
  by (auto simp: plain_target_file plain_name_def)

lemma mkdir_p_plain:
  "plain_name t \<Longrightarrow> files fs t = None \<Longrightarrow>
   mkdir_p t fs = Inr (fs\<lparr>dirs := insert t (dirs fs)\<rparr>)"
  by (auto simp: mkdir_p_Inr plain_ancestors plain_name_def insert_absorb)

lemma appending_plain:
  assumes "plain_name t" "CHR ''/'' \<notin> set sfx" "t \<in> dirs fs" "files fs t = None"
    "target_file t sfx \<notin> dirs fs"
  shows "appending (target_file t sfx) data fs =
     Inr (fs\<lparr>files := (files fs)(target_file t sfx \<mapsto> content fs (target_file t sfx) @ data)\<rparr>)"
proof -
  have "target_file t sfx \<noteq> []"
    using assms(1) by (simp add: plain_target_file)
  then show ?thesis
    using assms by (simp add: appending_Inr plain_dirname)
qed

lemma write_single_seqs_plain:
  assumes "plain_name t" "files fs t = None" "target_file t ''_unpaired.fasta'' \<notin> dirs fs"
  shows "write_single_seqs t ID1 Seq1 fs =
     Inr (fs\<lparr>dirs := insert t (dirs fs),
             files := (files fs)(target_file t ''_unpaired.fasta'' \<mapsto>
                        content fs (target_file t ''_unpaired.fasta'') @ fasta_record ID1 Seq1)\<rparr>)"
proof -
  let ?fs1 = "fs\<lparr>dirs := insert t (dirs fs)\<rparr>"
  have "target_file t ''_unpaired.fasta'' \<notin> dirs ?fs1"
    using assms plain_target_file_not_plain [of t t "''_unpaired.fasta''"] by auto
  then have "appending (target_file t ''_unpaired.fasta'') (fasta_record ID1 Seq1) ?fs1 =
     Inr (?fs1\<lparr>files := (files ?fs1)(target_file t ''_unpaired.fasta'' \<mapsto>
            content ?fs1 (target_file t ''_unpaired.fasta'') @ fasta_record ID1 Seq1)\<rparr>)"
    using assms by (intro appending_plain) simp_all
  then show ?thesis
    using assms by (simp add: write_single_seqs_eq mkdir_p_plain)
qed

lemma write_paired_seqs_plain:
  assumes "plain_name t" "files fs t = None"
    "target_file t ''_interleaved.fasta'' \<notin> dirs fs"
    "merged \<longrightarrow> target_file t ''_interleaved.fastq'' \<notin> dirs fs"
  shows "write_paired_seqs t ID1 Seq1 Qual1 ID2 Seq2 Qual2 True merged fs =
     Inr (if merged
          then fs\<lparr>dirs := insert t (dirs fs),
                  files := (files fs)
                    (target_file t ''_interleaved.fastq'' \<mapsto>
                       content fs (target_file t ''_interleaved.fastq'') @
                       fastq_record ID1 Seq1 Qual1 @ fastq_record ID2 Seq2 Qual2,
                     target_file t ''_interleaved.fasta'' \<mapsto>
                       content fs (target_file t ''_interleaved.fasta'') @
                       fasta_record ID1 Seq1 @ fasta_record ID2 Seq2)\<rparr>
          else fs\<lparr>dirs := insert t (dirs fs),
                  files := (files fs)
                    (target_file t ''_interleaved.fasta'' \<mapsto>
                       content fs (target_file t ''_interleaved.fasta'') @
                       fasta_record ID1 Seq1 @ fasta_record ID2 Seq2)\<rparr>)"
proof -
  let ?fa = "target_file t ''_interleaved.fasta''"
  let ?fq = "target_file t ''_interleaved.fastq''"
  let ?fs1 = "fs\<lparr>dirs := insert t (dirs fs)\<rparr>"
  have ne: "?fa \<noteq> t" "?fq \<noteq> t" "?fa \<noteq> ?fq"
    using assms(1) plain_target_file_not_plain [of t t] by (auto simp: plain_target_file)
  have mk: "mkdir_p t fs = Inr ?fs1"
    using assms by (simp add: mkdir_p_plain)
  show ?thesis
  proof (cases merged)
    case False
    have "appending ?fa (fasta_record ID1 Seq1 @ fasta_record ID2 Seq2) ?fs1 =
       Inr (?fs1\<lparr>files := (files ?fs1)(?fa \<mapsto>
              content ?fs1 ?fa @ fasta_record ID1 Seq1 @ fasta_record ID2 Seq2)\<rparr>)"
      using assms ne by (intro appending_plain) simp_all
    with False mk show ?thesis
      by (simp add: write_paired_seqs_eq)
  next
    case True
    let ?fs2 = "?fs1\<lparr>files := (files ?fs1)(?fq \<mapsto>
              content ?fs1 ?fq @ fastq_record ID1 Seq1 Qual1 @ fastq_record ID2 Seq2 Qual2)\<rparr>"
    have q: "appending ?fq (fastq_record ID1 Seq1 Qual1 @ fastq_record ID2 Seq2 Qual2) ?fs1 =
       Inr ?fs2"
      using assms ne True by (intro appending_plain) simp_all
    have a: "appending ?fa (fasta_record ID1 Seq1 @ fasta_record ID2 Seq2) ?fs2 =
       Inr (?fs2\<lparr>files := (files ?fs2)(?fa \<mapsto>
              content ?fs2 ?fa @ fasta_record ID1 Seq1 @ fasta_record ID2 Seq2)\<rparr>)"
      using assms ne True by (intro appending_plain) simp_all
    have "content ?fs2 ?fa = content fs ?fa"
      using ne by (simp add: content_def)
    with True mk q a show ?thesis
      by (simp add: write_paired_seqs_eq)
  qed
qed

lemma touches_only_mono: "touches_only S f \<Longrightarrow> S \<subseteq> T \<Longrightarrow> touches_only T f"
  unfolding touches_only_def by blast

lemma touches_only_Inr: "touches_only S Inr"
  by (simp add: touches_only_def)

lemma touches_only_and_then:
  assumes "touches_only S f" "touches_only S g"
  shows "touches_only S (\<lambda>fs. and_then (f fs) g)"
  unfolding touches_only_def
proof (intro allI impI)
  fix fs p
  assume p: "p \<notin> S"
  show "files (final_fs (and_then (f fs) g)) p = files fs p"
  proof (cases "f fs")
    case (Inl e)
    with assms(1) p show ?thesis
      unfolding touches_only_def by (metis and_then_Inl)
  next
    case (Inr m)
    with assms(1) p have "files m p = files fs p"
      unfolding touches_only_def by (metis final_fs_Inr)
    moreover from assms(2) p have "files (final_fs (g m)) p = files m p"
      unfolding touches_only_def by blast
    ultimately show ?thesis using Inr by simp
  qed
qed

lemma touches_only_mkdir_p: "touches_only S (mkdir_p t)"
  unfolding touches_only_def
  using mkdir_p_final by (metis (no_types, lifting) filesystem.select_convs(2) filesystem.surjective filesystem.update_convs(1))

lemma touches_only_appending: "p \<in> S \<Longrightarrow> touches_only S (appending p data)"
  unfolding touches_only_def
proof (intro allI impI)
  fix fs q
  assume "p \<in> S" "q \<notin> S"
  then have "q \<noteq> p" by blast
  then show "files (final_fs (appending p data fs)) q = files fs q"
    using appending_final [of p data fs] by auto
qed

lemma touches_only_for_each:
  assumes "\<And>x. x \<in> set xs \<Longrightarrow> touches_only S (body x)"
  shows "touches_only S (for_each body xs)"
  using assms
proof (induction xs)
  case Nil
  have "for_each body [] = Inr" by (rule ext) simp
  then show ?case by (simp add: touches_only_Inr)
next
  case (Cons x xs)
  have "for_each body (x # xs) = (\<lambda>fs. and_then (body x fs) (for_each body xs))"
    by (rule ext) simp
  moreover have "touches_only S (body x)" using Cons.prems by simp
  moreover have "touches_only S (for_each body xs)" using Cons by simp
  ultimately show ?case using touches_only_and_then by simp
qed

lemma touches_only_write_paired_seqs:
  "touches_only {target_file t ''_interleaved.fasta'', target_file t ''_interleaved.fastq''}
     (write_paired_seqs t ID1 Seq1 Qual1 ID2 Seq2 Qual2 True merged)"
  unfolding write_paired_seqs_eq
  by (cases merged)
     (auto intro!: touches_only_and_then touches_only_mkdir_p touches_only_appending
        touches_only_Inr)

lemma target_file_prefix: "\<exists>pre. \<forall>sfx. sfx \<noteq> [] \<longrightarrow> hd sfx \<noteq> CHR ''/'' \<longrightarrow> target_file t sfx = pre @ sfx"
proof (cases t)
  case Nil
  then have "\<forall>sfx. sfx \<noteq> [] \<longrightarrow> hd sfx \<noteq> CHR ''/'' \<longrightarrow> target_file t sfx = [] @ sfx"
    by (simp add: target_file_def os_path_join_def)
  then show ?thesis by blast
next
  case (Cons c cs)
  then have "\<forall>sfx. sfx \<noteq> [] \<longrightarrow> hd sfx \<noteq> CHR ''/'' \<longrightarrow> target_file t sfx =
      (if c = CHR ''/'' then t else if last t = CHR ''/'' then t @ t else t @ ''/'' @ t) @ sfx"
    by (simp add: target_file_def os_path_join_def)
  then show ?thesis by blast
qed

lemma fasta_not_fastq:
  "target_file t ''_interleaved.fasta'' \<noteq> target_file t ''_interleaved.fastq''"
proof -
  obtain pre where "\<forall>sfx. sfx \<noteq> [] \<longrightarrow> hd sfx \<noteq> CHR ''/'' \<longrightarrow> target_file t sfx = pre @ sfx"
    using target_file_prefix by blast
  then have "target_file t ''_interleaved.fasta'' = pre @ ''_interleaved.fasta''"
    and "target_file t ''_interleaved.fastq'' = pre @ ''_interleaved.fastq''"
    by simp_all
  then show ?thesis by simp
qed

lemma appends_mkdir_p: "mkdir_p t fs = Inr fs' \<Longrightarrow> appends (\<lambda>p. []) fs fs'"
  by (auto simp: mkdir_p_Inr appends_def split: if_splits)

lemma appends_appending:
  "appending p data fs = Inr fs' \<Longrightarrow> appends (\<lambda>q. if q = p then data else []) fs fs'"
  by (auto simp: appending_Inr appends_def content_update)

lemma appends_write_single_seqs:
  assumes "write_single_seqs t ID1 Seq1 fs = Inr fs'"
  shows "appends (\<lambda>p. if p = target_file t ''_unpaired.fasta'' then fasta_record ID1 Seq1 else [])
           fs fs'"
proof -
  from assms obtain m where m: "mkdir_p t fs = Inr m"
    "appending (target_file t ''_unpaired.fasta'') (fasta_record ID1 Seq1) m = Inr fs'"
    by (auto simp: write_single_seqs_eq and_then_eq_Inr)
  from appends_trans [OF appends_mkdir_p [OF m(1)] appends_appending [OF m(2)]]
  show ?thesis by simp
qed

lemma appends_write_paired_seqs:
  assumes "write_paired_seqs t ID1 Seq1 Qual1 ID2 Seq2 Qual2 True merged fs = Inr fs'"
  shows "appends (\<lambda>p. if p = target_file t ''_interleaved.fasta''
                        then fasta_record ID1 Seq1 @ fasta_record ID2 Seq2
                      else if merged \<and> p = target_file t ''_interleaved.fastq''
                        then fastq_record ID1 Seq1 Qual1 @ fastq_record ID2 Seq2 Qual2
                      else []) fs fs'"
proof (cases merged)
  case False
  with assms obtain m where m: "mkdir_p t fs = Inr m"
    "appending (target_file t ''_interleaved.fasta'')
       (fasta_record ID1 Seq1 @ fasta_record ID2 Seq2) m = Inr fs'"
    by (auto simp: write_paired_seqs_eq and_then_eq_Inr)
  from appends_trans [OF appends_mkdir_p [OF m(1)] appends_appending [OF m(2)]] False
  show ?thesis by (auto simp: appends_def)
next
  case True
  with assms obtain m m2 where m: "mkdir_p t fs = Inr m"
    "appending (target_file t ''_interleaved.fastq'')
       (fastq_record ID1 Seq1 Qual1 @ fastq_record ID2 Seq2 Qual2) m = Inr m2"
    "appending (target_file t ''_interleaved.fasta'')
       (fasta_record ID1 Seq1 @ fasta_record ID2 Seq2) m2 = Inr fs'"
    by (auto simp: write_paired_seqs_eq and_then_eq_Inr)
  from appends_trans [OF appends_trans [OF appends_mkdir_p [OF m(1)] appends_appending [OF m(2)]]
      appends_appending [OF m(3)]] True fasta_not_fastq [of t]
  show ?thesis by (auto simp: appends_def)
qed

lemma appends_for_each:
  assumes "\<And>x fs fs'. body x fs = Inr fs' \<Longrightarrow> appends (dl x) fs fs'"
  shows "for_each body xs fs = Inr fs' \<Longrightarrow> appends (\<lambda>p. concat (map (\<lambda>x. dl x p) xs)) fs fs'"
proof (induction xs arbitrary: fs)
  case Nil
  then show ?case by (simp add: appends_def)
next
  case (Cons x xs)
  then obtain m where m: "body x fs = Inr m" "for_each body xs m = Inr fs'"
    by (auto simp: and_then_eq_Inr)
  from appends_trans [OF assms [OF m(1)] Cons.IH [OF m(2)]]
  show ?case by simp
qed

lemma touches_only_write_paired_seqs_unmerged:
  "touches_only {target_file t ''_interleaved.fasta''}
     (write_paired_seqs t ID1 Seq1 Qual1 ID2 Seq2 Qual2 True False)"
  unfolding write_paired_seqs_eq
  by (auto intro!: touches_only_and_then touches_only_mkdir_p touches_only_appending
        touches_only_Inr)

section \<open>What a run writes, and when it returns\<close>

lemma appends_single_end_body:
  assumes "single_end_body d rcd fs = Inr fs'"
  shows "appends (single_end_output d rcd) fs fs'"
proof -
  obtain h s q where r: "rcd = (h, s, q)" by (cases rcd) auto
  show ?thesis
  proof (cases "split_ws h")
    case Nil
    with assms r show ?thesis by (simp add: single_end_body_def)
  next
    case (Cons ID1 rest)
    show ?thesis
    proof (cases "d (single_end_id ID1)")
      case None
      with assms r Cons have "fs' = fs" by (simp add: single_end_body_def)
      with None r Cons show ?thesis
        by (simp add: single_end_output_def appends_def)
    next
      case (Some targets)
      with assms r Cons
      have run: "for_each (\<lambda>t. write_single_seqs t (single_end_id ID1) s) targets fs = Inr fs'"
        by (simp add: single_end_body_def)
      from appends_for_each [of "\<lambda>t. write_single_seqs t (single_end_id ID1) s"
          "\<lambda>t p. if p = target_file t ''_unpaired.fasta''
                 then fasta_record (single_end_id ID1) s else []",
          OF appends_write_single_seqs run]
      show ?thesis using Some r Cons
        by (simp add: single_end_output_def appends_def)
    qed
  qed
qed

lemma paired_end_body_eq:
  assumes "split_ws h1 = a # as" "split_ws h2 = b # bs"
  shows "paired_end_body d merged (h1, s1, q1) (h2, s2, q2) fs =
     (case pair_targets d (paired_end_id a) (paired_end_id b) of
        None \<Rightarrow> Inr fs
      | Some targets \<Rightarrow>
          for_each (\<lambda>t. write_paired_seqs t (paired_end_id a) s1 q1 (paired_end_id b) s2 q2
                      True merged) targets fs)"
  using assms
  by (simp add: paired_end_body_def pair_targets_def split: option.splits)

lemma appends_paired_end_body:
  assumes "paired_end_body d merged rcd1 rcd2 fs = Inr fs'"
  shows "appends (paired_end_output d merged rcd1 rcd2) fs fs'"
proof -
  obtain h1 s1 q1 where r1: "rcd1 = (h1, s1, q1)" by (cases rcd1) auto
  obtain h2 s2 q2 where r2: "rcd2 = (h2, s2, q2)" by (cases rcd2) auto
  from assms r1 r2 obtain a as where sp1: "split_ws h1 = a # as"
    by (cases "split_ws h1") (auto simp: paired_end_body_def)
  from assms r1 r2 sp1 obtain b bs where sp2: "split_ws h2 = b # bs"
    by (cases "split_ws h2") (auto simp: paired_end_body_def)
  show ?thesis
  proof (cases "pair_targets d (paired_end_id a) (paired_end_id b)")
    case None
    with assms r1 r2 have "fs' = fs"
      by (simp add: paired_end_body_eq [OF sp1 sp2])
    with None r1 r2 sp1 sp2 show ?thesis
      by (simp add: paired_end_output_def appends_def)
  next
    case (Some targets)
    with assms r1 r2
    have run: "for_each (\<lambda>t. write_paired_seqs t (paired_end_id a) s1 q1 (paired_end_id b) s2 q2
                      True merged) targets fs = Inr fs'"
      by (simp add: paired_end_body_eq [OF sp1 sp2])
    from appends_for_each [of "\<lambda>t. write_paired_seqs t (paired_end_id a) s1 q1 (paired_end_id b) s2 q2
                      True merged"
        "\<lambda>t p. if p = target_file t ''_interleaved.fasta''
                 then fasta_record (paired_end_id a) s1 @ fasta_record (paired_end_id b) s2
               else if merged \<and> p = target_file t ''_interleaved.fastq''
                 then fastq_record (paired_end_id a) s1 q1 @ fastq_record (paired_end_id b) s2 q2
               else []",
        OF appends_write_paired_seqs run]
    show ?thesis using Some r1 r2 sp1 sp2
      by (simp add: paired_end_output_def appends_def)
  qed
qed

lemma appends_paired_end_loop:
  "paired_end_loop d merged xs (Some ys) fs = Inr fs' \<Longrightarrow>
   appends (\<lambda>p. concat (map (\<lambda>pair. paired_end_output d merged (fst pair) (snd pair) p)
                          (zip xs ys))) fs fs'"
proof (induction xs arbitrary: ys fs)
  case Nil
  then show ?case by (simp add: appends_def)
next
  case (Cons x xs)
  then obtain y ys' where ys: "ys = y # ys'"
    by (cases ys) auto
  with Cons.prems obtain m where m: "paired_end_body d merged x y fs = Inr m"
    "paired_end_loop d merged xs (Some ys') m = Inr fs'"
    by (auto simp: and_then_eq_Inr)
  from appends_trans [OF appends_paired_end_body [OF m(1)] Cons.IH [OF m(2)]]
  show ?case by (simp add: ys)
qed

lemma appends_distribute_reads:
  assumes "distribute_reads readfiles d single merged fs = Inr fs'"
  shows "appends (run_output readfiles d merged) fs fs'"
proof (cases readfiles)
  case Nil
  with assms show ?thesis by (simp add: distribute_reads_def)
next
  case c1: (Cons source1 rest)
  show ?thesis
  proof (cases rest)
    case Nil
    with c1 assms have "for_each (single_end_body d) source1 fs = Inr fs'"
      by (simp add: distribute_reads_def)
    from appends_for_each [of "single_end_body d" "single_end_output d", OF appends_single_end_body this]
    show ?thesis using c1 Nil by (simp add: run_output_def appends_def)
  next
    case c2: (Cons source2 rest2)
    show ?thesis
    proof (cases rest2)
      case Nil
      with c1 c2 assms have "paired_end_loop d merged source1 (Some source2) fs = Inr fs'"
        by (simp add: distribute_reads_def)
      from appends_paired_end_loop [OF this]
      show ?thesis using c1 c2 Nil by (simp add: run_output_def appends_def)
    next
      case (Cons source3 rest3)
      with c1 c2 assms have "fs' = fs"
        using distribute_reads_unbound [of readfiles d single merged fs]
        by (auto split: if_splits)
      with c1 c2 Cons show ?thesis by (simp add: run_output_def appends_def)
    qed
  qed
qed

lemma ready_for_after_write:
  assumes "ready_for T fs" "t \<in> T"
  shows "ready_for T (fs\<lparr>dirs := insert t (dirs fs),
                         files := (files fs)(target_file t sfx \<mapsto> x)\<rparr>)"
  unfolding ready_for_def
proof (intro ballI conjI allI)
  fix u assume u: "u \<in> T"
  from assms u have pl: "plain_name t" "plain_name u"
    by (auto simp: ready_for_def directory_name_def)
  from assms u show "directory_name u" by (simp add: ready_for_def)
  have "target_file t sfx \<noteq> u"
    using plain_target_file_not_plain [OF pl(1) pl(2)] .
  with assms(1) u
  show "files (fs\<lparr>dirs := insert t (dirs fs),
                 files := (files fs)(target_file t sfx \<mapsto> x)\<rparr>) u = None"
    by (simp add: ready_for_def)
  fix suffix
  have "target_file u suffix \<noteq> t"
    using plain_target_file_not_plain [OF pl(2) pl(1)] .
  with assms(1) u
  show "target_file u suffix \<notin> dirs (fs\<lparr>dirs := insert t (dirs fs),
                 files := (files fs)(target_file t sfx \<mapsto> x)\<rparr>)"
    by (simp add: ready_for_def)
qed

lemma returns_write_single_seqs:
  assumes "ready_for T fs" "t \<in> T"
  shows "\<exists>fs'. write_single_seqs t ID1 Seq1 fs = Inr fs' \<and> ready_for T fs'"
proof -
  from assms have "plain_name t" "files fs t = None"
    "target_file t ''_unpaired.fasta'' \<notin> dirs fs"
    by (auto simp: ready_for_def directory_name_def)
  from write_single_seqs_plain [OF this, of ID1 Seq1] ready_for_after_write [OF assms]
  show ?thesis by simp
qed

lemma returns_write_paired_seqs:
  assumes "ready_for T fs" "t \<in> T"
  shows "\<exists>fs'. write_paired_seqs t ID1 Seq1 Qual1 ID2 Seq2 Qual2 True merged fs = Inr fs' \<and>
               ready_for T fs'"
proof -
  from assms have pre: "plain_name t" "files fs t = None"
    "target_file t ''_interleaved.fasta'' \<notin> dirs fs"
    "merged \<longrightarrow> target_file t ''_interleaved.fastq'' \<notin> dirs fs"
    by (auto simp: ready_for_def directory_name_def)
  show ?thesis
  proof (cases merged)
    case False
    with write_paired_seqs_plain [OF pre, of ID1 Seq1 Qual1 ID2 Seq2 Qual2]
      ready_for_after_write [OF assms]
    show ?thesis by simp
  next
    case True
    let ?fs1 = "fs\<lparr>dirs := insert t (dirs fs),
                   files := (files fs)(target_file t ''_interleaved.fastq'' \<mapsto>
                       content fs (target_file t ''_interleaved.fastq'') @
                       fastq_record ID1 Seq1 Qual1 @ fastq_record ID2 Seq2 Qual2)\<rparr>"
    have r1: "ready_for T ?fs1" by (rule ready_for_after_write [OF assms])
    have "ready_for T (?fs1\<lparr>dirs := insert t (dirs ?fs1),
             files := (files ?fs1)(target_file t ''_interleaved.fasta'' \<mapsto>
                       content fs (target_file t ''_interleaved.fasta'') @
                       fasta_record ID1 Seq1 @ fasta_record ID2 Seq2)\<rparr>)"
      by (rule ready_for_after_write [OF r1 assms(2)])
    with True write_paired_seqs_plain [OF pre, of ID1 Seq1 Qual1 ID2 Seq2 Qual2]
    show ?thesis by simp
  qed
qed

lemma returns_for_each:
  assumes "\<And>x fs. x \<in> set xs \<Longrightarrow> I fs \<Longrightarrow> \<exists>fs'. body x fs = Inr fs' \<and> I fs'"
    and "I fs"
  shows "\<exists>fs'. for_each body xs fs = Inr fs' \<and> I fs'"
  using assms
proof (induction xs arbitrary: fs)
  case Nil
  then show ?case by simp
next
  case (Cons x xs)
  from Cons.prems(1) [of x fs] Cons.prems(2)
  obtain m where m: "body x fs = Inr m" "I m" by auto
  have "\<exists>fs'. for_each body xs m = Inr fs' \<and> I fs'"
    by (rule Cons.IH) (use Cons.prems(1) m(2) in auto)
  with m(1) show ?case by simp
qed

lemma returns_single_end_body:
  assumes "split_ws (fst rcd) \<noteq> []" "ready_for (index_targets d) fs"
  shows "\<exists>fs'. single_end_body d rcd fs = Inr fs' \<and> ready_for (index_targets d) fs'"
proof -
  obtain h s q where r: "rcd = (h, s, q)" by (cases rcd) auto
  with assms(1) obtain ID1 rest where sp: "split_ws h = ID1 # rest"
    by (cases "split_ws h") auto
  show ?thesis
  proof (cases "d (single_end_id ID1)")
    case None
    with r sp assms(2) show ?thesis by (simp add: single_end_body_def)
  next
    case (Some targets)
    then have sub: "set targets \<subseteq> index_targets d"
      by (auto simp: index_targets_def)
    have "\<exists>fs'. for_each (\<lambda>t. write_single_seqs t (single_end_id ID1) s) targets fs = Inr fs' \<and>
            ready_for (index_targets d) fs'"
      by (rule returns_for_each [where I = "ready_for (index_targets d)"])
         (use sub assms(2) returns_write_single_seqs in auto)
    with r sp Some show ?thesis by (simp add: single_end_body_def)
  qed
qed

lemma returns_paired_end_body:
  assumes "split_ws (fst rcd1) \<noteq> []" "split_ws (fst rcd2) \<noteq> []"
    "ready_for (index_targets d) fs"
  shows "\<exists>fs'. paired_end_body d merged rcd1 rcd2 fs = Inr fs' \<and>
               ready_for (index_targets d) fs'"
proof -
  obtain h1 s1 q1 where r1: "rcd1 = (h1, s1, q1)" by (cases rcd1) auto
  obtain h2 s2 q2 where r2: "rcd2 = (h2, s2, q2)" by (cases rcd2) auto
  from assms(1) r1 obtain a as where sp1: "split_ws h1 = a # as"
    by (cases "split_ws h1") auto
  from assms(2) r2 obtain b bs where sp2: "split_ws h2 = b # bs"
    by (cases "split_ws h2") auto
  show ?thesis
  proof (cases "pair_targets d (paired_end_id a) (paired_end_id b)")
    case None
    with r1 r2 assms(3) show ?thesis
      by (simp add: paired_end_body_eq [OF sp1 sp2])
  next
    case (Some targets)
    then have sub: "set targets \<subseteq> index_targets d"
      by (auto simp: index_targets_def pair_targets_def split: option.splits)
    have "\<exists>fs'. for_each (\<lambda>t. write_paired_seqs t (paired_end_id a) s1 q1 (paired_end_id b) s2 q2
                      True merged) targets fs = Inr fs' \<and>
            ready_for (index_targets d) fs'"
      by (rule returns_for_each [where I = "ready_for (index_targets d)"])
         (use sub assms(3) returns_write_paired_seqs in auto)
    with r1 r2 Some show ?thesis
      by (simp add: paired_end_body_eq [OF sp1 sp2])
  qed
qed

lemma returns_distribute_reads:
  assumes "readable readfiles" "ready_for (index_targets d) fs"
  shows "\<exists>fs'. distribute_reads readfiles d single merged fs = Inr fs'"
proof -
  from assms(1) consider
    (one) source where "readfiles = [source]" "\<forall>r \<in> set source. split_ws (fst r) \<noteq> []"
  | (two) source1 source2 where "readfiles = [source1, source2]"
      "length source1 \<le> length source2"
      "\<forall>pair \<in> set (zip source1 source2).
             split_ws (fst (fst pair)) \<noteq> [] \<and> split_ws (fst (snd pair)) \<noteq> []"
    by (auto simp: readable_def split: list.splits)
  then show ?thesis
  proof cases
    case one
    have "\<exists>fs'. for_each (single_end_body d) source fs = Inr fs' \<and>
            ready_for (index_targets d) fs'"
      by (rule returns_for_each [where I = "ready_for (index_targets d)"])
         (use one(2) assms(2) returns_single_end_body in auto)
    with one(1) show ?thesis by (auto simp: distribute_reads_one)
  next
    case two
    have "\<exists>fs'. for_each (\<lambda>pair. paired_end_body d merged (fst pair) (snd pair))
             (zip source1 source2) fs = Inr fs' \<and> ready_for (index_targets d) fs'"
      by (rule returns_for_each [where I = "ready_for (index_targets d)"])
         (use two(3) assms(2) returns_paired_end_body in auto)
    with two(1,2) show ?thesis
      by (auto simp: distribute_reads_two paired_end_loop_source1_shorter lockstep_run_def)
  qed
qed

lemma concat_map_contains:
  "x \<in> set xs \<Longrightarrow> \<exists>pre post. concat (map f xs) = pre @ f x @ post"
proof -
  assume "x \<in> set xs"
  then obtain ys zs where "xs = ys @ x # zs" by (auto dest: split_list)
  then have "concat (map f xs) = concat (map f ys) @ f x @ concat (map f zs)" by simp
  then show ?thesis by blast
qed

lemma single_end_output_contains:
  assumes "(h, s, q) \<in> set source" "split_ws h = ID1 # rest"
    "d (single_end_id ID1) = Some targets" "t \<in> set targets"
  shows "\<exists>pre post. run_output [source] d merged (target_file t ''_unpaired.fasta'') =
           pre @ fasta_record (single_end_id ID1) s @ post"
proof -
  let ?p = "target_file t ''_unpaired.fasta''"
  let ?g = "\<lambda>u. if ?p = target_file u ''_unpaired.fasta''
                 then fasta_record (single_end_id ID1) s else []"
  from concat_map_contains [OF assms(4), of ?g]
  obtain c e where "concat (map ?g targets) = c @ fasta_record (single_end_id ID1) s @ e"
    by auto
  then have one: "single_end_output d (h, s, q) ?p = c @ fasta_record (single_end_id ID1) s @ e"
    using assms(2,3) by (simp add: single_end_output_def)
  from concat_map_contains [OF assms(1), of "\<lambda>r. single_end_output d r ?p"]
  obtain a b where "run_output [source] d merged ?p = a @ single_end_output d (h, s, q) ?p @ b"
    by (auto simp: run_output_def)
  with one have "run_output [source] d merged ?p =
      (a @ c) @ fasta_record (single_end_id ID1) s @ (e @ b)" by simp
  then show ?thesis by blast
qed

lemma paired_end_output_contains:
  assumes "((h1, s1, q1), (h2, s2, q2)) \<in> set (zip source1 source2)"
    "split_ws h1 = ID1 # rest1" "split_ws h2 = ID2 # rest2"
    "pair_targets d (paired_end_id ID1) (paired_end_id ID2) = Some targets" "t \<in> set targets"
  shows "\<exists>pre post. run_output [source1, source2] d merged (target_file t ''_interleaved.fasta'') =
           pre @ fasta_record (paired_end_id ID1) s1 @ fasta_record (paired_end_id ID2) s2 @ post"
proof -
  let ?p = "target_file t ''_interleaved.fasta''"
  let ?rec = "fasta_record (paired_end_id ID1) s1 @ fasta_record (paired_end_id ID2) s2"
  let ?g = "\<lambda>u. if ?p = target_file u ''_interleaved.fasta'' then ?rec
                else if merged \<and> ?p = target_file u ''_interleaved.fastq''
                  then fastq_record (paired_end_id ID1) s1 q1 @
                       fastq_record (paired_end_id ID2) s2 q2
                else []"
  from concat_map_contains [OF assms(5), of ?g]
  obtain c e where "concat (map ?g targets) = c @ ?rec @ e"
    by auto
  then have one: "paired_end_output d merged (h1, s1, q1) (h2, s2, q2) ?p = c @ ?rec @ e"
    using assms(2,3,4) by (simp add: paired_end_output_def)
  from concat_map_contains [OF assms(1),
      of "\<lambda>pair. paired_end_output d merged (fst pair) (snd pair) ?p"]
  obtain a b where "run_output [source1, source2] d merged ?p =
      a @ paired_end_output d merged (h1, s1, q1) (h2, s2, q2) ?p @ b"
    by (auto simp: run_output_def)
  with one have "run_output [source1, source2] d merged ?p =
      (a @ c) @ fasta_record (paired_end_id ID1) s1 @ fasta_record (paired_end_id ID2) s2 @ (e @ b)"
    by simp
  then show ?thesis by (intro exI)
qed

section \<open>The claims\<close>

text \<open>
  Claim C1: when every line has its three fields the builder returns a mapping; a read
  identifier is a key exactly when it is field 0 of some line, taken as it is, and its
  value lists the targets of its lines, each once, in the order of first occurrence. The
  target of a line is what follows the last hyphen of field 2 (all of field 2 when it
  has no hyphen). Repeated (read, target) pairs add nothing: the three hits of readA on
  5968, 5968 and 6128 give the mapping of readA to 5968 and 6128 alone.
\<close>

theorem hit_index_deduplicated:
  "((\<forall>l \<in> set bwa_results. 3 \<le> length (split_ws l)) \<longrightarrow>
      (\<exists>d. read_sorting bwa_results = Inr d \<and>
         (\<forall>r. d r = (if r \<in> line_read ` set bwa_results
                      then Some (targets_of bwa_results r) else None)) \<and>
         (\<forall>r ts. d r = Some ts \<longrightarrow>
            distinct ts \<and> set ts = line_target ` {l \<in> set bwa_results. line_read l = r}))) \<and>
   (\<forall>l. line_target l = rev (takeWhile (\<lambda>c. c \<noteq> CHR ''-'') (rev (split_ws l ! 2)))) \<and>
   read_sorting [''readA 0 target-5968'', ''readA 16 target-5968'', ''readA 0 target-6128'']
     = Inr [''readA'' \<mapsto> [''5968'', ''6128'']]"
proof (intro conjI impI allI)
  assume ok: "\<forall>l \<in> set bwa_results. 3 \<le> length (split_ws l)"
  then obtain d where d: "read_sorting bwa_results = Inr d"
    using read_sorting_loop_returns [of bwa_results Map.empty]
    by (auto simp: read_sorting_def)
  have look: "d r = (if r \<in> line_read ` set bwa_results
                     then Some (targets_of bwa_results r) else None)" for r
    by (rule read_sorting_lookup [OF d])
  have "distinct ts \<and> set ts = line_target ` {l \<in> set bwa_results. line_read l = r}"
    if "d r = Some ts" for r ts
  proof -
    from that look [of r] have "ts = targets_of bwa_results r"
      by (auto split: if_splits)
    then show ?thesis
      by (auto simp: targets_of_def first_occurrences_distinct first_occurrences_set)
  qed
  with d look
  show "\<exists>d. read_sorting bwa_results = Inr d \<and>
         (\<forall>r. d r = (if r \<in> line_read ` set bwa_results
                      then Some (targets_of bwa_results r) else None)) \<and>
         (\<forall>r ts. d r = Some ts \<longrightarrow>
            distinct ts \<and> set ts = line_target ` {l \<in> set bwa_results. line_read l = r})"
    by blast
next
  fix l
  show "line_target l = rev (takeWhile (\<lambda>c. c \<noteq> CHR ''-'') (rev (split_ws l ! 2)))"
    by (simp only: line_target_def last_split_on)
next
  show "read_sorting [''readA 0 target-5968'', ''readA 16 target-5968'', ''readA 0 target-6128'']
     = Inr [''readA'' \<mapsto> [''5968'', ''6128'']]"
    by (simp add: read_sorting_def split_ws_def split_on_def isspace_def)
qed

theorem hit_index_deduplicated_witness:
  "\<exists>d. read_sorting [''readA 0 target-5968'', ''readB 0 gene-7'', ''readA 16 target-5968'',
                      ''readA 0 other-target-6128'', ''readB 16 gene-7''] = Inr d \<and>
       d ''readA'' = Some [''5968'', ''6128''] \<and> d ''readB'' = Some [''7''] \<and>
       d ''readC'' = None"
proof -
  let ?ls = "[''readA 0 target-5968'', ''readB 0 gene-7'', ''readA 16 target-5968'',
              ''readA 0 other-target-6128'', ''readB 16 gene-7'']"
  have ok: "\<forall>l \<in> set ?ls. 3 \<le> length (split_ws l)"
    by (simp add: split_ws_def isspace_def)
  have reads: "map line_read ?ls = [''readA'', ''readB'', ''readA'', ''readA'', ''readB'']"
    by (simp add: line_read_def split_ws_def isspace_def)
  have targets: "map line_target ?ls = [''5968'', ''7'', ''5968'', ''6128'', ''7'']"
    by (simp add: line_target_def split_ws_def split_on_def isspace_def)
  have A: "targets_of ?ls ''readA'' = [''5968'', ''6128'']"
    using reads targets by (simp add: targets_of_def first_occurrences_def)
  have B: "targets_of ?ls ''readB'' = [''7'']"
    using reads targets by (simp add: targets_of_def first_occurrences_def)
  have keys: "line_read ` set ?ls = {''readA'', ''readB''}"
    using reads by (simp only: set_map [symmetric]) auto
  from hit_index_deduplicated [of ?ls] ok
  obtain d where d: "read_sorting ?ls = Inr d"
    and look: "\<And>r. d r = (if r \<in> line_read ` set ?ls then Some (targets_of ?ls r) else None)"
    by blast
  have "d ''readA'' = Some [''5968'', ''6128'']"
    by (simp only: look keys A) simp
  moreover have "d ''readB'' = Some [''7'']"
    by (simp only: look keys B) simp
  moreover have "d ''readC'' = None"
    by (simp only: look keys) simp
  ultimately show ?thesis using d by blast
qed

text \<open>
  Claim C2: for a pair whose two headers have a first field, the hit index is asked
  for identifier 1 first. When identifier 1 is a key, the pair is written, in order, to
  each target of identifier 1's list and only to them: no file other than the
  interleaved files of those targets changes, and the outcome is the same for every hit
  index that agrees on identifier 1, whatever it holds for identifier 2. Only when
  identifier 1 is not a key is identifier 2 looked up and the pair written to
  identifier 2's targets; when neither is a key nothing is written.
\<close>

theorem first_mate_wins:
  "split_ws ID1_long = ID1 # rest1 \<longrightarrow> split_ws ID2_long = ID2 # rest2 \<longrightarrow>
     (\<forall>targets1. read_hit_dict (paired_end_id ID1) = Some targets1 \<longrightarrow>
        paired_end_body read_hit_dict merged (ID1_long, Seq1, Qual1) (ID2_long, Seq2, Qual2) fs =
          for_each (\<lambda>target. write_paired_seqs target (paired_end_id ID1) Seq1 Qual1
                       (paired_end_id ID2) Seq2 Qual2 True merged) targets1 fs \<and>
        (\<forall>p. p \<notin> (\<Union>t \<in> set targets1. {target_file t ''_interleaved.fasta'',
                                          target_file t ''_interleaved.fastq''}) \<longrightarrow>
           files (final_fs (paired_end_body read_hit_dict merged
                    (ID1_long, Seq1, Qual1) (ID2_long, Seq2, Qual2) fs)) p = files fs p) \<and>
        (\<forall>other. other (paired_end_id ID1) = Some targets1 \<longrightarrow>
           paired_end_body other merged (ID1_long, Seq1, Qual1) (ID2_long, Seq2, Qual2) fs =
           paired_end_body read_hit_dict merged (ID1_long, Seq1, Qual1) (ID2_long, Seq2, Qual2) fs)) \<and>
     (read_hit_dict (paired_end_id ID1) = None \<longrightarrow>
        (\<forall>targets2. read_hit_dict (paired_end_id ID2) = Some targets2 \<longrightarrow>
           paired_end_body read_hit_dict merged (ID1_long, Seq1, Qual1) (ID2_long, Seq2, Qual2) fs =
             for_each (\<lambda>target. write_paired_seqs target (paired_end_id ID1) Seq1 Qual1
                          (paired_end_id ID2) Seq2 Qual2 True merged) targets2 fs) \<and>
        (read_hit_dict (paired_end_id ID2) = None \<longrightarrow>
           paired_end_body read_hit_dict merged (ID1_long, Seq1, Qual1) (ID2_long, Seq2, Qual2) fs =
             Inr fs))"
proof (intro impI conjI allI)
  assume sp: "split_ws ID1_long = ID1 # rest1" "split_ws ID2_long = ID2 # rest2"
  let ?loop = "\<lambda>targets. for_each (\<lambda>target. write_paired_seqs target (paired_end_id ID1) Seq1 Qual1
                       (paired_end_id ID2) Seq2 Qual2 True merged) targets"
  {
    fix targets1
    assume look: "read_hit_dict (paired_end_id ID1) = Some targets1"
    show eq: "paired_end_body read_hit_dict merged (ID1_long, Seq1, Qual1) (ID2_long, Seq2, Qual2) fs
        = ?loop targets1 fs"
      using sp look by (simp add: paired_end_body_def)
    {
      fix p
      assume p: "p \<notin> (\<Union>t \<in> set targets1. {target_file t ''_interleaved.fasta'',
                                          target_file t ''_interleaved.fastq''})"
      have "touches_only (\<Union>t \<in> set targets1. {target_file t ''_interleaved.fasta'',
                                          target_file t ''_interleaved.fastq''}) (?loop targets1)"
        by (intro touches_only_for_each touches_only_mono [OF touches_only_write_paired_seqs])
          auto
      with p show "files (final_fs (paired_end_body read_hit_dict merged
                    (ID1_long, Seq1, Qual1) (ID2_long, Seq2, Qual2) fs)) p = files fs p"
        unfolding eq touches_only_def by blast
    }
    fix other :: hit_dict
    assume "other (paired_end_id ID1) = Some targets1"
    then have "paired_end_body other merged (ID1_long, Seq1, Qual1) (ID2_long, Seq2, Qual2) fs
        = ?loop targets1 fs"
      using sp by (simp add: paired_end_body_def)
    with eq show "paired_end_body other merged (ID1_long, Seq1, Qual1) (ID2_long, Seq2, Qual2) fs =
           paired_end_body read_hit_dict merged (ID1_long, Seq1, Qual1) (ID2_long, Seq2, Qual2) fs"
      by simp
  }
  {
    assume none: "read_hit_dict (paired_end_id ID1) = None"
    show "paired_end_body read_hit_dict merged (ID1_long, Seq1, Qual1) (ID2_long, Seq2, Qual2) fs
        = ?loop targets2 fs"
      if "read_hit_dict (paired_end_id ID2) = Some targets2" for targets2
      using sp none that by (simp add: paired_end_body_def)
    show "paired_end_body read_hit_dict merged (ID1_long, Seq1, Qual1) (ID2_long, Seq2, Qual2) fs
        = Inr fs"
      if "read_hit_dict (paired_end_id ID2) = None"
      using sp none that by (simp add: paired_end_body_def)
  }
qed

theorem first_mate_wins_witness:
  "paired_end_body [''readX'' \<mapsto> [''7''], ''readY'' \<mapsto> [''8'']] False
     (''readX/1'', ''ACGT'', ''IIII'') (''readY/2'', ''TTTT'', ''JJJJ'')
     \<lparr>dirs = {}, files = Map.empty\<rparr>
   = Inr \<lparr>dirs = {''7''},
          files = [''7/7_interleaved.fasta'' \<mapsto>
                     fasta_record ''readX'' ''ACGT'' @ fasta_record ''readY'' ''TTTT'']\<rparr> \<and>
   paired_end_body [''readY'' \<mapsto> [''8'']] False
     (''readX/1'', ''ACGT'', ''IIII'') (''readY/2'', ''TTTT'', ''JJJJ'')
     \<lparr>dirs = {}, files = Map.empty\<rparr>
   = Inr \<lparr>dirs = {''8''},
          files = [''8/8_interleaved.fasta'' \<mapsto>
                     fasta_record ''readX'' ''ACGT'' @ fasta_record ''readY'' ''TTTT'']\<rparr>"
proof -
  let ?fs = "\<lparr>dirs = {}, files = Map.empty\<rparr>"
  let ?d = "[''readX'' \<mapsto> [''7''], ''readY'' \<mapsto> [''8'']]"
  let ?e = "[''readY'' \<mapsto> [''8'']]"
  have sp1: "split_ws ''readX/1'' = ''readX/1'' # []"
    and sp2: "split_ws ''readY/2'' = ''readY/2'' # []"
    by (simp_all add: split_ws_def isspace_def)
  have ids: "paired_end_id ''readX/1'' = ''readX''" "paired_end_id ''readY/2'' = ''readY''"
    by (simp_all add: paired_end_id_def endswith_def)
  have look1: "?d (paired_end_id ''readX/1'') = Some [''7'']"
    and none1: "?e (paired_end_id ''readX/1'') = None"
    and look2: "?e (paired_end_id ''readY/2'') = Some [''8'']"
    by (simp_all add: ids)
  note both = first_mate_wins
    [of "''readX/1''" "''readX/1''" "[]" "''readY/2''" "''readY/2''" "[]" ?d False
        "''ACGT''" "''IIII''" "''TTTT''" "''JJJJ''" ?fs,
     THEN mp, OF sp1, THEN mp, OF sp2, THEN conjunct1, THEN spec, THEN mp, OF look1,
     THEN conjunct1]
  note second = first_mate_wins
    [of "''readX/1''" "''readX/1''" "[]" "''readY/2''" "''readY/2''" "[]" ?e False
        "''ACGT''" "''IIII''" "''TTTT''" "''JJJJ''" ?fs,
     THEN mp, OF sp1, THEN mp, OF sp2, THEN conjunct2, THEN mp, OF none1,
     THEN conjunct1, THEN spec, THEN mp, OF look2]
  have w7: "write_paired_seqs ''7'' ''readX'' ''ACGT'' ''IIII'' ''readY'' ''TTTT'' ''JJJJ'' True False ?fs
     = Inr \<lparr>dirs = {''7''},
          files = [''7/7_interleaved.fasta'' \<mapsto>
                     fasta_record ''readX'' ''ACGT'' @ fasta_record ''readY'' ''TTTT'']\<rparr>"
    by (simp add: write_paired_seqs_def mkdir_p_def makedirs_def
        ancestors_def isdir_def open_append_def target_file_def os_path_join_def dirname_def
        file_write_def)
  have w8: "write_paired_seqs ''8'' ''readX'' ''ACGT'' ''IIII'' ''readY'' ''TTTT'' ''JJJJ'' True False ?fs
     = Inr \<lparr>dirs = {''8''},
          files = [''8/8_interleaved.fasta'' \<mapsto>
                     fasta_record ''readX'' ''ACGT'' @ fasta_record ''readY'' ''TTTT'']\<rparr>"
    by (simp add: write_paired_seqs_def mkdir_p_def makedirs_def
        ancestors_def isdir_def open_append_def target_file_def os_path_join_def dirname_def
        file_write_def)
  show ?thesis
    using both second w7 w8 by (simp add: ids)
qed

text \<open>
  Claim C3: with two sources of the same number of records the paired-end run is the
  run over the two sources zipped by position, whatever the identifiers are: the
  record at position n of source 1 is processed, and written, with the record at
  position n of source 2. After any n iterations the loop goes on with both sources
  advanced by exactly n records.
\<close>

theorem paired_lockstep:
  "length source1 = length source2 \<longrightarrow>
     distribute_reads [source1, source2] read_hit_dict single merged fs
       = lockstep_run read_hit_dict merged (zip source1 source2) fs \<and>
     (\<forall>n < length source1. zip source1 source2 ! n = (source1 ! n, source2 ! n)) \<and>
     (\<forall>n \<le> length source1.
        distribute_reads [source1, source2] read_hit_dict single merged fs =
          and_then
            (lockstep_run read_hit_dict merged (zip (take n source1) (take n source2)) fs)
            (paired_end_loop read_hit_dict merged (drop n source1) (Some (drop n source2))))"
proof (intro impI conjI allI)
  assume len: "length source1 = length source2"
  then show "distribute_reads [source1, source2] read_hit_dict single merged fs
       = lockstep_run read_hit_dict merged (zip source1 source2) fs"
    by (simp add: distribute_reads_two paired_end_loop_source1_shorter)
  fix n
  show "zip source1 source2 ! n = (source1 ! n, source2 ! n)" if "n < length source1"
    using that len by simp
  show "distribute_reads [source1, source2] read_hit_dict single merged fs =
          and_then
            (lockstep_run read_hit_dict merged (zip (take n source1) (take n source2)) fs)
            (paired_end_loop read_hit_dict merged (drop n source1) (Some (drop n source2)))"
    if "n \<le> length source1"
    using that len paired_end_loop_prefix [of n source1 source2 read_hit_dict merged fs]
    by (simp add: distribute_reads_two)
qed

theorem paired_lockstep_witness:
  "distribute_reads
     [[(''readX/1'', ''ACGT'', ''IIII''), (''readZ/1'', ''CCCC'', ''IIII'')],
      [(''readY/2'', ''TTTT'', ''JJJJ''), (''readW/2'', ''GGGG'', ''JJJJ'')]]
     [''readX'' \<mapsto> [''7''], ''readW'' \<mapsto> [''7'']] True False \<lparr>dirs = {}, files = Map.empty\<rparr>
   = Inr \<lparr>dirs = {''7''},
          files = [''7/7_interleaved.fasta'' \<mapsto>
                     fasta_record ''readX'' ''ACGT'' @ fasta_record ''readY'' ''TTTT'' @
                     fasta_record ''readZ'' ''CCCC'' @ fasta_record ''readW'' ''GGGG'']\<rparr>"
proof -
  let ?d = "[''readX'' \<mapsto> [''7''], ''readW'' \<mapsto> [''7'']]"
  let ?fs = "\<lparr>dirs = {}, files = Map.empty\<rparr>"
  have len: "length [(''readX/1'', ''ACGT'', ''IIII''), (''readZ/1'', ''CCCC'', ''IIII'')] =
      length [(''readY/2'', ''TTTT'', ''JJJJ''), (''readW/2'', ''GGGG'', ''JJJJ'')]"
    by simp
  have run: "lockstep_run ?d False
      (zip [(''readX/1'', ''ACGT'', ''IIII''), (''readZ/1'', ''CCCC'', ''IIII'')]
           [(''readY/2'', ''TTTT'', ''JJJJ''), (''readW/2'', ''GGGG'', ''JJJJ'')]) ?fs
    = Inr \<lparr>dirs = {''7''},
          files = [''7/7_interleaved.fasta'' \<mapsto>
                     fasta_record ''readX'' ''ACGT'' @ fasta_record ''readY'' ''TTTT'' @
                     fasta_record ''readZ'' ''CCCC'' @ fasta_record ''readW'' ''GGGG'']\<rparr>"
    by (simp add: lockstep_run_def paired_end_body_def split_ws_def isspace_def
        paired_end_id_def endswith_def write_paired_seqs_def mkdir_p_def makedirs_def
        ancestors_def isdir_def open_append_def target_file_def os_path_join_def dirname_def
        file_write_def)
  from paired_lockstep
    [of "[(''readX/1'', ''ACGT'', ''IIII''), (''readZ/1'', ''CCCC'', ''IIII'')]"
        "[(''readY/2'', ''TTTT'', ''JJJJ''), (''readW/2'', ''GGGG'', ''JJJJ'')]"
        ?d True False ?fs, THEN mp, OF len, THEN conjunct1] run
  show ?thesis by (simp only:)
qed

text \<open>
  Claim C4, as amended: when source 2 has fewer records than source 1 the run
  processes the pairs up to the end of source 2 and then raises \<open>StopIteration\<close>, unless
  one of those pairs has raised before; it always raises. When source 1 has fewer
  records the run processes the pairs up to the end of source 1 and returns as if the
  surplus of source 2 were not there. No record is ever padded.
\<close>

theorem uneven_sources:
  "(length source2 < length source1 \<longrightarrow>
      distribute_reads [source1, source2] read_hit_dict single merged fs =
        and_then (lockstep_run read_hit_dict merged (zip source1 source2) fs)
          (\<lambda>fs'. Inl (StopIteration, fs')) \<and>
      (\<exists>e fs'. distribute_reads [source1, source2] read_hit_dict single merged fs = Inl (e, fs'))) \<and>
   (length source1 < length source2 \<longrightarrow>
      distribute_reads [source1, source2] read_hit_dict single merged fs =
        lockstep_run read_hit_dict merged (zip source1 source2) fs \<and>
      distribute_reads [source1, source2] read_hit_dict single merged fs =
        distribute_reads [source1, take (length source1) source2] read_hit_dict single merged fs)"
proof (intro conjI impI)
  assume less: "length source2 < length source1"
  then show eq: "distribute_reads [source1, source2] read_hit_dict single merged fs =
        and_then (lockstep_run read_hit_dict merged (zip source1 source2) fs)
          (\<lambda>fs'. Inl (StopIteration, fs'))"
    by (simp add: distribute_reads_two paired_end_loop_source2_shorter)
  show "\<exists>e fs'. distribute_reads [source1, source2] read_hit_dict single merged fs = Inl (e, fs')"
    unfolding eq
    by (cases "lockstep_run read_hit_dict merged (zip source1 source2) fs") auto
next
  assume less: "length source1 < length source2"
  then show "distribute_reads [source1, source2] read_hit_dict single merged fs =
        lockstep_run read_hit_dict merged (zip source1 source2) fs"
    by (simp add: distribute_reads_two paired_end_loop_source1_shorter)
  from less show "distribute_reads [source1, source2] read_hit_dict single merged fs =
        distribute_reads [source1, take (length source1) source2] read_hit_dict single merged fs"
    by (simp add: distribute_reads_two paired_end_loop_source1_shorter zip_take_right)
qed

theorem uneven_sources_witness:
  "distribute_reads
     [[(''readX/1'', ''ACGT'', ''IIII''), (''readY/1'', ''CCCC'', ''IIII'')],
      [(''readX/2'', ''TTTT'', ''JJJJ'')]]
     [''readX'' \<mapsto> [''7'']] True False \<lparr>dirs = {}, files = Map.empty\<rparr>
   = Inl (StopIteration,
          \<lparr>dirs = {''7''},
           files = [''7/7_interleaved.fasta'' \<mapsto>
                      fasta_record ''readX'' ''ACGT'' @ fasta_record ''readX'' ''TTTT'']\<rparr>) \<and>
   distribute_reads
     [[(''readX/1'', ''ACGT'', ''IIII'')],
      [(''readX/2'', ''TTTT'', ''JJJJ''), (''readY/2'', ''GGGG'', ''KKKK'')]]
     [''readX'' \<mapsto> [''7'']] True False \<lparr>dirs = {}, files = Map.empty\<rparr>
   = Inr \<lparr>dirs = {''7''},
          files = [''7/7_interleaved.fasta'' \<mapsto>
                     fasta_record ''readX'' ''ACGT'' @ fasta_record ''readX'' ''TTTT'']\<rparr>"
proof -
  have run: "lockstep_run [''readX'' \<mapsto> [''7'']] False
      [((''readX/1'', ''ACGT'', ''IIII''), (''readX/2'', ''TTTT'', ''JJJJ''))]
      \<lparr>dirs = {}, files = Map.empty\<rparr>
    = Inr \<lparr>dirs = {''7''},
           files = [''7/7_interleaved.fasta'' \<mapsto>
                      fasta_record ''readX'' ''ACGT'' @ fasta_record ''readX'' ''TTTT'']\<rparr>"
    by (simp add: lockstep_run_def paired_end_body_def split_ws_def isspace_def
        paired_end_id_def endswith_def write_paired_seqs_def mkdir_p_def makedirs_def
        ancestors_def isdir_def open_append_def target_file_def os_path_join_def dirname_def
        file_write_def)
  show ?thesis
    using uneven_sources
      [of "[(''readX/2'', ''TTTT'', ''JJJJ'')]"
          "[(''readX/1'', ''ACGT'', ''IIII''), (''readY/1'', ''CCCC'', ''IIII'')]"
          "[''readX'' \<mapsto> [''7'']]" True False "\<lparr>dirs = {}, files = Map.empty\<rparr>"]
      uneven_sources
      [of "[(''readX/2'', ''TTTT'', ''JJJJ''), (''readY/2'', ''GGGG'', ''KKKK'')]"
          "[(''readX/1'', ''ACGT'', ''IIII'')]"
          "[''readX'' \<mapsto> [''7'']]" True False "\<lparr>dirs = {}, files = Map.empty\<rparr>"]
      run
    by simp
qed

theorem uneven_sources_counterexample:
  "distribute_reads
     [[(''readX/1'', ''ACGT'', ''IIII'')],
      [(''readX/2'', ''TTTT'', ''JJJJ''), (''readY/2'', ''GGGG'', ''KKKK'')]]
     [''readX'' \<mapsto> [''7''], ''readY'' \<mapsto> [''7'']] True False
     \<lparr>dirs = {}, files = Map.empty\<rparr>
   = Inr \<lparr>dirs = {''7''},
          files = [''7/7_interleaved.fasta'' \<mapsto>
                     fasta_record ''readX'' ''ACGT'' @ fasta_record ''readX'' ''TTTT'']\<rparr>"
  by (simp add: distribute_reads_def paired_end_body_def split_ws_def isspace_def
      paired_end_id_def endswith_def write_paired_seqs_def mkdir_p_def makedirs_def
      ancestors_def isdir_def open_append_def target_file_def os_path_join_def dirname_def
      file_write_def)

text \<open>
  Claim C5: the single-end branch does not strip \<open>/1\<close> or \<open>/2\<close>. Its test is for the
  characters 1 and 2 (the escapes \<open>"\1"\<close> and \<open>"\2"\<close>), so \<open>readX/1\<close> is looked up as it
  is and a read that the index has under \<open>readX\<close> is not written, while the paired-end
  branch strips the suffix; an identifier that ends in the character 1 loses its last
  two characters.
\<close>

theorem single_end_mate_suffix_kept:
  "single_end_id ''readX/1'' = ''readX/1'' \<and>
   single_end_id ''readX/2'' = ''readX/2'' \<and>
   paired_end_id ''readX/1'' = ''readX'' \<and>
   single_end_id (''readX'' @ [CHR 0x01]) = ''read'' \<and>
   distribute_reads [[(''readX/1'', ''ACGT'', ''IIII'')]] [''readX'' \<mapsto> [''7'']] True False
     \<lparr>dirs = {}, files = Map.empty\<rparr> = Inr \<lparr>dirs = {}, files = Map.empty\<rparr>"
  by (simp add: distribute_reads_def single_end_body_def split_ws_def isspace_def
      single_end_id_def paired_end_id_def endswith_def)

text \<open>
  Claim C6: the single-end run does not look a read up under its normalized
  identifier. The read \<open>readX/1\<close>, whose normalized identifier \<open>readX\<close> is a key of the hit
  index, is written to no file; with the hit index keyed by \<open>readX/1\<close>, where the
  normalized identifier is not a key, the read is appended to the target's unpaired
  file, under the name \<open>readX/1\<close>; and a read whose identifier ends in the character 1
  is looked up and written with its last two characters cut. The paired-end branch
  looks the same read up as \<open>readX\<close>.
\<close>

theorem single_end_lookup_not_normalized:
  "distribute_reads [[(''readX/1'', ''ACGT'', ''IIII'')]] [''readX'' \<mapsto> [''7'']] True False
     \<lparr>dirs = {}, files = Map.empty\<rparr> = Inr \<lparr>dirs = {}, files = Map.empty\<rparr> \<and>
   distribute_reads [[(''readX/1'', ''ACGT'', ''IIII'')]] [''readX/1'' \<mapsto> [''7'']] True False
     \<lparr>dirs = {}, files = Map.empty\<rparr>
     = Inr \<lparr>dirs = {''7''},
            files = [''7/7_unpaired.fasta'' \<mapsto>
                       ''>readX/1'' @ [CHR 0x0A] @ ''ACGT'' @ [CHR 0x0A]]\<rparr> \<and>
   distribute_reads [[(''readX'' @ [CHR 0x01], ''ACGT'', ''IIII'')]] [''read'' \<mapsto> [''7'']]
     True False \<lparr>dirs = {}, files = Map.empty\<rparr>
     = Inr \<lparr>dirs = {''7''},
            files = [''7/7_unpaired.fasta'' \<mapsto>
                       ''>read'' @ [CHR 0x0A] @ ''ACGT'' @ [CHR 0x0A]]\<rparr> \<and>
   distribute_reads [[(''readX/1'', ''ACGT'', ''IIII'')], [(''readX/2'', ''TTTT'', ''JJJJ'')]]
     [''readX'' \<mapsto> [''7'']] True False \<lparr>dirs = {}, files = Map.empty\<rparr>
     = Inr \<lparr>dirs = {''7''},
            files = [''7/7_interleaved.fasta'' \<mapsto>
                       ''>readX'' @ [CHR 0x0A] @ ''ACGT'' @ [CHR 0x0A] @
                       ''>readX'' @ [CHR 0x0A] @ ''TTTT'' @ [CHR 0x0A]]\<rparr>"
  by (simp add: distribute_reads_def single_end_body_def paired_end_body_def split_ws_def
      isspace_def single_end_id_def paired_end_id_def endswith_def write_single_seqs_def
      write_paired_seqs_def mkdir_p_def makedirs_def ancestors_def isdir_def open_append_def
      target_file_def os_path_join_def dirname_def file_write_def fasta_record_def nl_def)

text \<open>
  Claim C7: the distributor calls \<open>write_paired_seqs\<close> with \<open>single\<close> set. Every such
  write that returns has appended the FASTA record of mate 1 and then the FASTA record
  of mate 2 to the target's \<open>_interleaved.fasta\<close> file; with \<open>merged\<close> it has also appended
  the two FASTQ records, mate 1 first, each with its \<open>+\<close> line, to the target's
  \<open>_interleaved.fastq\<close> file, and without \<open>merged\<close> that file is as before (not even
  created); no other file changes. For a target that is a plain directory name the two
  files are \<open>target/target_interleaved.fasta\<close> and \<open>target/target_interleaved.fastq\<close>, and
  the write returns when no regular file sits at the target's name and neither output
  path is a directory.
\<close>

theorem pair_appended_interleaved:
  "(write_paired_seqs target ID1 Seq1 Qual1 ID2 Seq2 Qual2 True merged fs = Inr fs' \<longrightarrow>
      content fs' (target_file target ''_interleaved.fasta'') =
        content fs (target_file target ''_interleaved.fasta'') @
        fasta_record ID1 Seq1 @ fasta_record ID2 Seq2 \<and>
      (merged \<longrightarrow>
         content fs' (target_file target ''_interleaved.fastq'') =
           content fs (target_file target ''_interleaved.fastq'') @
           fastq_record ID1 Seq1 Qual1 @ fastq_record ID2 Seq2 Qual2) \<and>
      (\<not> merged \<longrightarrow>
         files fs' (target_file target ''_interleaved.fastq'') =
           files fs (target_file target ''_interleaved.fastq'')) \<and>
      (\<forall>p. p \<noteq> target_file target ''_interleaved.fasta'' \<and>
           p \<noteq> target_file target ''_interleaved.fastq'' \<longrightarrow> files fs' p = files fs p)) \<and>
   (plain_name target \<longrightarrow> files fs target = None \<longrightarrow>
    target_file target ''_interleaved.fasta'' \<notin> dirs fs \<longrightarrow>
    target_file target ''_interleaved.fastq'' \<notin> dirs fs \<longrightarrow>
      (\<exists>fs''. write_paired_seqs target ID1 Seq1 Qual1 ID2 Seq2 Qual2 True merged fs = Inr fs'') \<and>
      target_file target ''_interleaved.fasta'' = target @ ''/'' @ target @ ''_interleaved.fasta'' \<and>
      target_file target ''_interleaved.fastq'' = target @ ''/'' @ target @ ''_interleaved.fastq'') \<and>
   (split_ws ID1_long = a # as \<longrightarrow> split_ws ID2_long = b # bs \<longrightarrow>
    read_hit_dict (paired_end_id a) = Some [target] \<longrightarrow>
      paired_end_body read_hit_dict merged (ID1_long, Seq1, Qual1) (ID2_long, Seq2, Qual2) fs =
        write_paired_seqs target (paired_end_id a) Seq1 Qual1 (paired_end_id b) Seq2 Qual2
          True merged fs) \<and>
   fasta_record ID1 Seq1 = ''>'' @ ID1 @ [CHR 0x0A] @ Seq1 @ [CHR 0x0A] \<and>
   fastq_record ID1 Seq1 Qual1 =
     ''@'' @ ID1 @ [CHR 0x0A] @ Seq1 @ [CHR 0x0A] @ ''+'' @ [CHR 0x0A] @ Qual1 @ [CHR 0x0A]"
proof (intro conjI impI allI)
  let ?fa = "target_file target ''_interleaved.fasta''"
  let ?fq = "target_file target ''_interleaved.fastq''"
  let ?w = "write_paired_seqs target ID1 Seq1 Qual1 ID2 Seq2 Qual2 True merged"
  {
    assume run: "?w fs = Inr fs'"
    note app = appends_write_paired_seqs [OF run]
    show "content fs' ?fa = content fs ?fa @ fasta_record ID1 Seq1 @ fasta_record ID2 Seq2"
      using app by (simp add: appends_def)
    show "content fs' ?fq = content fs ?fq @
           fastq_record ID1 Seq1 Qual1 @ fastq_record ID2 Seq2 Qual2" if merged
      using app that fasta_not_fastq [of target] by (auto simp: appends_def)
    show "files fs' ?fq = files fs ?fq" if "\<not> merged"
    proof -
      have "files (final_fs (?w fs)) ?fq = files fs ?fq"
        using touches_only_write_paired_seqs_unmerged [of target ID1 Seq1 Qual1 ID2 Seq2 Qual2]
          that fasta_not_fastq [of target]
        unfolding touches_only_def by auto
      with run show ?thesis by simp
    qed
    fix p
    assume "p \<noteq> ?fa \<and> p \<noteq> ?fq"
    then have "files (final_fs (?w fs)) p = files fs p"
      using touches_only_write_paired_seqs [of target ID1 Seq1 Qual1 ID2 Seq2 Qual2 merged]
      unfolding touches_only_def by auto
    with run show "files fs' p = files fs p" by simp
  }
  {
    assume pl: "plain_name target" and nofile: "files fs target = None"
      and fa: "?fa \<notin> dirs fs" and fq: "?fq \<notin> dirs fs"
    show "\<exists>fs''. ?w fs = Inr fs''"
      using write_paired_seqs_plain [of target fs merged ID1 Seq1 Qual1 ID2 Seq2 Qual2]
        pl nofile fa fq by simp
    show "?fa = target @ ''/'' @ target @ ''_interleaved.fasta''"
      using pl by (rule plain_target_file)
    show "?fq = target @ ''/'' @ target @ ''_interleaved.fastq''"
      using pl by (rule plain_target_file)
  }
  show "paired_end_body read_hit_dict merged (ID1_long, Seq1, Qual1) (ID2_long, Seq2, Qual2) fs =
        write_paired_seqs target (paired_end_id a) Seq1 Qual1 (paired_end_id b) Seq2 Qual2
          True merged fs"
    if "split_ws ID1_long = a # as" "split_ws ID2_long = b # bs"
      "read_hit_dict (paired_end_id a) = Some [target]"
    using that
    by (cases "write_paired_seqs target (paired_end_id a) Seq1 Qual1 (paired_end_id b) Seq2 Qual2
          True merged fs")
       (simp_all add: paired_end_body_def)
  show "fasta_record ID1 Seq1 = ''>'' @ ID1 @ [CHR 0x0A] @ Seq1 @ [CHR 0x0A]"
    by (simp add: fasta_record_def nl_def)
  show "fastq_record ID1 Seq1 Qual1 =
     ''@'' @ ID1 @ [CHR 0x0A] @ Seq1 @ [CHR 0x0A] @ ''+'' @ [CHR 0x0A] @ Qual1 @ [CHR 0x0A]"
    by (simp add: fastq_record_def nl_def)
qed

theorem pair_appended_interleaved_witness:
  "\<exists>fs'. paired_end_body [''readX'' \<mapsto> [''7'']] True
           (''readX/1'', ''ACGT'', ''IIII'') (''readX/2'', ''TTTT'', ''JJJJ'')
           \<lparr>dirs = {}, files = Map.empty\<rparr> = Inr fs' \<and>
         content fs' ''7/7_interleaved.fasta'' =
           ''>readX'' @ [CHR 0x0A] @ ''ACGT'' @ [CHR 0x0A] @
           ''>readX'' @ [CHR 0x0A] @ ''TTTT'' @ [CHR 0x0A] \<and>
         content fs' ''7/7_interleaved.fastq'' =
           ''@readX'' @ [CHR 0x0A] @ ''ACGT'' @ [CHR 0x0A] @ ''+'' @ [CHR 0x0A] @ ''IIII'' @ [CHR 0x0A] @
           ''@readX'' @ [CHR 0x0A] @ ''TTTT'' @ [CHR 0x0A] @ ''+'' @ [CHR 0x0A] @ ''JJJJ'' @ [CHR 0x0A]"
proof -
  let ?fs = "\<lparr>dirs = {}, files = Map.empty\<rparr>"
  let ?d = "[''readX'' \<mapsto> [''7'']]"
  note inst = pair_appended_interleaved
    [of "''7''" "''readX''" "''ACGT''" "''IIII''" "''readX''" "''TTTT''" "''JJJJ''" True ?fs _
        "''readX/1''" "''readX/1''" "[]" "''readX/2''" "''readX/2''" "[]" ?d]
  have pl: "plain_name ''7''" by (simp add: plain_name_def)
  have ids: "paired_end_id ''readX/1'' = ''readX''" "paired_end_id ''readX/2'' = ''readX''"
    by (simp_all add: paired_end_id_def endswith_def)
  have sp: "split_ws ''readX/1'' = [''readX/1'']" "split_ws ''readX/2'' = [''readX/2'']"
    by (simp_all add: split_ws_def isspace_def)
  from inst pl obtain fs' where
    run: "write_paired_seqs ''7'' ''readX'' ''ACGT'' ''IIII'' ''readX'' ''TTTT'' ''JJJJ'' True True ?fs
          = Inr fs'"
    and fa: "target_file ''7'' ''_interleaved.fasta'' = ''7/7_interleaved.fasta''"
    and fq: "target_file ''7'' ''_interleaved.fastq'' = ''7/7_interleaved.fastq''"
    by auto
  from inst [of fs'] sp ids run
  have body: "paired_end_body ?d True (''readX/1'', ''ACGT'', ''IIII'')
      (''readX/2'', ''TTTT'', ''JJJJ'') ?fs = Inr fs'"
    by simp
  from inst [of fs'] run fa fq
  have "content fs' ''7/7_interleaved.fasta'' =
           ''>readX'' @ [CHR 0x0A] @ ''ACGT'' @ [CHR 0x0A] @
           ''>readX'' @ [CHR 0x0A] @ ''TTTT'' @ [CHR 0x0A]"
    and "content fs' ''7/7_interleaved.fastq'' =
           ''@readX'' @ [CHR 0x0A] @ ''ACGT'' @ [CHR 0x0A] @ ''+'' @ [CHR 0x0A] @ ''IIII'' @ [CHR 0x0A] @
           ''@readX'' @ [CHR 0x0A] @ ''TTTT'' @ [CHR 0x0A] @ ''+'' @ [CHR 0x0A] @ ''JJJJ'' @ [CHR 0x0A]"
    by (simp_all add: content_def fasta_record_def fastq_record_def nl_def)
  with body show ?thesis by blast
qed

text \<open>
  Claim C8: a run never removes or truncates anything, whether it returns or raises:
  every write appends. A run on readable read files returns when the file system is
  ready for the targets of the hit index. When a run has returned, every file has grown
  by exactly the records the run writes to it, and a second run with the same inputs on
  the file system the first one left returns too, creates no new directory or file and
  appends the same records once more: every file then holds every record of the run
  twice, a file that did not exist before the first run holds its content twice, and
  the second run has changed the file system as soon as the run writes anything. A
  single-end read that is in the hit index is among the records written to the unpaired
  file of each of its targets, and a pair that is in the hit index is among the records
  written to the interleaved FASTA file of each of its targets, so for such inputs the
  run does write.
\<close>

theorem rerun_duplicates_records:
  "extends fs (final_fs (distribute_reads readfiles read_hit_dict single merged fs)) \<and>
   (readable readfiles \<longrightarrow> ready_for (index_targets read_hit_dict) fs \<longrightarrow>
      (\<exists>fs1. distribute_reads readfiles read_hit_dict single merged fs = Inr fs1)) \<and>
   (disjoint_fs fs \<longrightarrow> (\<forall>t \<in> index_targets read_hit_dict. directory_name t) \<longrightarrow>
    distribute_reads readfiles read_hit_dict single merged fs = Inr fs1 \<longrightarrow>
      (\<exists>fs2. distribute_reads readfiles read_hit_dict single merged fs1 = Inr fs2 \<and>
         dirs fs2 = dirs fs1 \<and> dom (files fs2) = dom (files fs1) \<and>
         (\<forall>p. content fs1 p = content fs p @ run_output readfiles read_hit_dict merged p \<and>
              content fs2 p = content fs p @ run_output readfiles read_hit_dict merged p @
                                run_output readfiles read_hit_dict merged p) \<and>
         (\<forall>p. files fs p = None \<longrightarrow> content fs2 p = content fs1 p @ content fs1 p) \<and>
         ((\<exists>p. run_output readfiles read_hit_dict merged p \<noteq> []) \<longrightarrow> fs2 \<noteq> fs1))) \<and>
   ((h, s, q) \<in> set source \<longrightarrow> split_ws h = ID1 # rest \<longrightarrow>
    read_hit_dict (single_end_id ID1) = Some targets \<longrightarrow> t \<in> set targets \<longrightarrow>
      (\<exists>pre post. run_output [source] read_hit_dict merged (target_file t ''_unpaired.fasta'') =
           pre @ fasta_record (single_end_id ID1) s @ post) \<and>
      run_output [source] read_hit_dict merged (target_file t ''_unpaired.fasta'') \<noteq> []) \<and>
   (((h1, s1, q1), (h2, s2, q2)) \<in> set (zip source1 source2) \<longrightarrow>
    split_ws h1 = a # as \<longrightarrow> split_ws h2 = b # bs \<longrightarrow>
    pair_targets read_hit_dict (paired_end_id a) (paired_end_id b) = Some targets \<longrightarrow>
    t \<in> set targets \<longrightarrow>
      (\<exists>pre post. run_output [source1, source2] read_hit_dict merged
                     (target_file t ''_interleaved.fasta'') =
           pre @ fasta_record (paired_end_id a) s1 @ fasta_record (paired_end_id b) s2 @ post) \<and>
      run_output [source1, source2] read_hit_dict merged
        (target_file t ''_interleaved.fasta'') \<noteq> [])"
proof (intro conjI impI)
  let ?run = "distribute_reads readfiles read_hit_dict single merged"
  let ?out = "run_output readfiles read_hit_dict merged"
  have rep: "repeatable ?run" by (rule repeatable_distribute_reads)
  show "extends fs (final_fs (?run fs))"
    by (rule repeatable_extends [OF rep])
  {
    assume "readable readfiles" "ready_for (index_targets read_hit_dict) fs"
    then show "\<exists>fs1. ?run fs = Inr fs1"
      by (rule returns_distribute_reads)
  }
  {
    assume dis: "disjoint_fs fs" and run1: "?run fs = Inr fs1"
    from rep run1 dis have dis1: "disjoint_fs fs1"
      unfolding repeatable_def by blast
    have "names_within fs1 fs1" "same_names fs1 fs1"
      by (simp_all add: names_within_def same_names_def)
    with rep run1 dis1 obtain fs2 where run2: "?run fs1 = Inr fs2" and same: "same_names fs2 fs1"
      unfolding repeatable_def by blast
    have d1: "appends ?out fs fs1" by (rule appends_distribute_reads [OF run1])
    have d2: "appends ?out fs1 fs2" by (rule appends_distribute_reads [OF run2])
    have both: "content fs1 p = content fs p @ ?out p \<and>
                content fs2 p = content fs p @ ?out p @ ?out p" for p
      using d1 d2 by (simp add: appends_def)
    have twice: "content fs2 p = content fs1 p @ content fs1 p" if "files fs p = None" for p
    proof -
      from that have "content fs p = []" by (simp add: content_def)
      with both [of p] show ?thesis by simp
    qed
    have changed: "fs2 \<noteq> fs1" if "\<exists>p. ?out p \<noteq> []"
    proof
      assume "fs2 = fs1"
      with both have "content fs p @ ?out p = content fs p @ ?out p @ ?out p" for p
        by metis
      then have "?out p = []" for p by simp
      with that show False by blast
    qed
    from run2 same both twice changed
    show "\<exists>fs2. ?run fs1 = Inr fs2 \<and>
         dirs fs2 = dirs fs1 \<and> dom (files fs2) = dom (files fs1) \<and>
         (\<forall>p. content fs1 p = content fs p @ ?out p \<and>
              content fs2 p = content fs p @ ?out p @ ?out p) \<and>
         (\<forall>p. files fs p = None \<longrightarrow> content fs2 p = content fs1 p @ content fs1 p) \<and>
         ((\<exists>p. ?out p \<noteq> []) \<longrightarrow> fs2 \<noteq> fs1)"
      unfolding same_names_def by blast
  }
  {
    assume hyp: "(h, s, q) \<in> set source" "split_ws h = ID1 # rest"
      "read_hit_dict (single_end_id ID1) = Some targets" "t \<in> set targets"
    have "\<exists>pre post. run_output [source] read_hit_dict merged
         (target_file t ''_unpaired.fasta'') = pre @ fasta_record (single_end_id ID1) s @ post"
      using hyp by (rule single_end_output_contains)
    then obtain pre post where eq: "run_output [source] read_hit_dict merged
         (target_file t ''_unpaired.fasta'') = pre @ fasta_record (single_end_id ID1) s @ post"
      by blast
    then show "\<exists>pre post. run_output [source] read_hit_dict merged
         (target_file t ''_unpaired.fasta'') = pre @ fasta_record (single_end_id ID1) s @ post"
      by blast
    show "run_output [source] read_hit_dict merged (target_file t ''_unpaired.fasta'') \<noteq> []"
      unfolding eq by (simp add: fasta_record_def)
  }
  {
    assume hyp: "((h1, s1, q1), (h2, s2, q2)) \<in> set (zip source1 source2)"
      "split_ws h1 = a # as" "split_ws h2 = b # bs"
      "pair_targets read_hit_dict (paired_end_id a) (paired_end_id b) = Some targets"
      "t \<in> set targets"
    have "\<exists>pre post. run_output [source1, source2] read_hit_dict merged
         (target_file t ''_interleaved.fasta'') =
           pre @ fasta_record (paired_end_id a) s1 @ fasta_record (paired_end_id b) s2 @ post"
      using hyp by (rule paired_end_output_contains)
    then obtain pre post where eq: "run_output [source1, source2] read_hit_dict merged
         (target_file t ''_interleaved.fasta'') =
           pre @ fasta_record (paired_end_id a) s1 @ fasta_record (paired_end_id b) s2 @ post"
      by blast
    then show "\<exists>pre post. run_output [source1, source2] read_hit_dict merged
         (target_file t ''_interleaved.fasta'') =
           pre @ fasta_record (paired_end_id a) s1 @ fasta_record (paired_end_id b) s2 @ post"
      by blast
    show "run_output [source1, source2] read_hit_dict merged
        (target_file t ''_interleaved.fasta'') \<noteq> []"
      unfolding eq by (simp add: fasta_record_def)
  }
qed

theorem rerun_duplicates_records_witness:
  "(\<exists>fs1 fs2.
     distribute_reads
       [[(''readA'', ''AAAA'', ''IIII''), (''readB'', ''GGGG'', ''IIII''),
         (''readC'', ''CCCC'', ''IIII'')]]
       [''readA'' \<mapsto> [''5968''], ''readC'' \<mapsto> [''5968'', ''6128'']] True False
       \<lparr>dirs = {}, files = Map.empty\<rparr> = Inr fs1 \<and>
     distribute_reads
       [[(''readA'', ''AAAA'', ''IIII''), (''readB'', ''GGGG'', ''IIII''),
         (''readC'', ''CCCC'', ''IIII'')]]
       [''readA'' \<mapsto> [''5968''], ''readC'' \<mapsto> [''5968'', ''6128'']] True False fs1 = Inr fs2 \<and>
     fs2 \<noteq> fs1 \<and>
     content fs1 ''5968/5968_unpaired.fasta''
       = ''>readA'' @ [CHR 0x0A] @ ''AAAA'' @ [CHR 0x0A] @
         ''>readC'' @ [CHR 0x0A] @ ''CCCC'' @ [CHR 0x0A] \<and>
     content fs2 ''5968/5968_unpaired.fasta''
       = ''>readA'' @ [CHR 0x0A] @ ''AAAA'' @ [CHR 0x0A] @
         ''>readC'' @ [CHR 0x0A] @ ''CCCC'' @ [CHR 0x0A] @
         ''>readA'' @ [CHR 0x0A] @ ''AAAA'' @ [CHR 0x0A] @
         ''>readC'' @ [CHR 0x0A] @ ''CCCC'' @ [CHR 0x0A] \<and>
     content fs2 ''6128/6128_unpaired.fasta''
       = ''>readC'' @ [CHR 0x0A] @ ''CCCC'' @ [CHR 0x0A] @
         ''>readC'' @ [CHR 0x0A] @ ''CCCC'' @ [CHR 0x0A]) \<and>
   (\<exists>fs1 fs2.
     distribute_reads
       [[(''readX/1'', ''ACGT'', ''IIII'')], [(''readX/2'', ''TTTT'', ''JJJJ'')]]
       [''readX'' \<mapsto> [''7'']] True True \<lparr>dirs = {}, files = Map.empty\<rparr> = Inr fs1 \<and>
     distribute_reads
       [[(''readX/1'', ''ACGT'', ''IIII'')], [(''readX/2'', ''TTTT'', ''JJJJ'')]]
       [''readX'' \<mapsto> [''7'']] True True fs1 = Inr fs2 \<and>
     fs2 \<noteq> fs1 \<and>
     content fs1 ''7/7_interleaved.fasta''
       = ''>readX'' @ [CHR 0x0A] @ ''ACGT'' @ [CHR 0x0A] @
         ''>readX'' @ [CHR 0x0A] @ ''TTTT'' @ [CHR 0x0A] \<and>
     content fs2 ''7/7_interleaved.fasta''
       = ''>readX'' @ [CHR 0x0A] @ ''ACGT'' @ [CHR 0x0A] @
         ''>readX'' @ [CHR 0x0A] @ ''TTTT'' @ [CHR 0x0A] @
         ''>readX'' @ [CHR 0x0A] @ ''ACGT'' @ [CHR 0x0A] @
         ''>readX'' @ [CHR 0x0A] @ ''TTTT'' @ [CHR 0x0A] \<and>
     content fs2 ''7/7_interleaved.fastq''
       = ''@readX'' @ [CHR 0x0A] @ ''ACGT'' @ [CHR 0x0A] @ ''+'' @ [CHR 0x0A] @ ''IIII'' @ [CHR 0x0A] @
         ''@readX'' @ [CHR 0x0A] @ ''TTTT'' @ [CHR 0x0A] @ ''+'' @ [CHR 0x0A] @ ''JJJJ'' @ [CHR 0x0A] @
         ''@readX'' @ [CHR 0x0A] @ ''ACGT'' @ [CHR 0x0A] @ ''+'' @ [CHR 0x0A] @ ''IIII'' @ [CHR 0x0A] @
         ''@readX'' @ [CHR 0x0A] @ ''TTTT'' @ [CHR 0x0A] @ ''+'' @ [CHR 0x0A] @ ''JJJJ'' @ [CHR 0x0A])"
proof (rule conjI)
  let ?fs = "\<lparr>dirs = {}, files = Map.empty\<rparr>"
  let ?rf = "[[(''readA'', ''AAAA'', ''IIII''), (''readB'', ''GGGG'', ''IIII''),
         (''readC'', ''CCCC'', ''IIII'')]]"
  let ?d = "[''readA'' \<mapsto> [''5968''], ''readC'' \<mapsto> [''5968'', ''6128'']]"
  note inst = rerun_duplicates_records
    [where fs = ?fs and readfiles = ?rf and read_hit_dict = ?d and single = True
       and merged = False]
  have rd: "readable ?rf"
    by (simp add: readable_def split_ws_def isspace_def)
  have dn: "\<forall>t \<in> index_targets ?d. directory_name t"
    by (auto simp: index_targets_def directory_name_def plain_name_def split: if_splits)
  then have ry: "ready_for (index_targets ?d) ?fs"
    by (simp add: ready_for_def)
  have dis: "disjoint_fs ?fs" by (simp add: disjoint_fs_def)
  from inst [THEN conjunct2, THEN conjunct1, THEN mp, OF rd, THEN mp, OF ry]
  obtain fs1 where run1: "distribute_reads ?rf ?d True False ?fs = Inr fs1" by blast
  from inst [THEN conjunct2, THEN conjunct2, THEN conjunct1, THEN mp, OF dis, THEN mp, OF dn,
      THEN mp, OF run1]
  obtain fs2 where run2: "distribute_reads ?rf ?d True False fs1 = Inr fs2"
    and cont: "\<And>p. content fs1 p = content ?fs p @ run_output ?rf ?d False p \<and>
              content fs2 p = content ?fs p @ run_output ?rf ?d False p @ run_output ?rf ?d False p"
    and changed: "(\<exists>p. run_output ?rf ?d False p \<noteq> []) \<longrightarrow> fs2 \<noteq> fs1"
    by blast
  have o1: "run_output ?rf ?d False ''5968/5968_unpaired.fasta'' =
      ''>readA'' @ [CHR 0x0A] @ ''AAAA'' @ [CHR 0x0A] @
      ''>readC'' @ [CHR 0x0A] @ ''CCCC'' @ [CHR 0x0A]"
    by (simp add: run_output_def single_end_output_def split_ws_def isspace_def
        single_end_id_def endswith_def target_file_def os_path_join_def fasta_record_def nl_def)
  have o2: "run_output ?rf ?d False ''6128/6128_unpaired.fasta'' =
      ''>readC'' @ [CHR 0x0A] @ ''CCCC'' @ [CHR 0x0A]"
    by (simp add: run_output_def single_end_output_def split_ws_def isspace_def
        single_end_id_def endswith_def target_file_def os_path_join_def fasta_record_def nl_def)
  from o2 have "\<exists>p. run_output ?rf ?d False p \<noteq> []" by (intro exI [of _ "''6128/6128_unpaired.fasta''"]) simp
  with changed have ne: "fs2 \<noteq> fs1" by blast
  have "content fs1 ''5968/5968_unpaired.fasta''
       = ''>readA'' @ [CHR 0x0A] @ ''AAAA'' @ [CHR 0x0A] @
         ''>readC'' @ [CHR 0x0A] @ ''CCCC'' @ [CHR 0x0A]"
    using cont [of "''5968/5968_unpaired.fasta''"] o1 by (simp add: content_def)
  moreover have "content fs2 ''5968/5968_unpaired.fasta''
       = ''>readA'' @ [CHR 0x0A] @ ''AAAA'' @ [CHR 0x0A] @
         ''>readC'' @ [CHR 0x0A] @ ''CCCC'' @ [CHR 0x0A] @
         ''>readA'' @ [CHR 0x0A] @ ''AAAA'' @ [CHR 0x0A] @
         ''>readC'' @ [CHR 0x0A] @ ''CCCC'' @ [CHR 0x0A]"
    using cont [of "''5968/5968_unpaired.fasta''"] o1 by (simp add: content_def)
  moreover have "content fs2 ''6128/6128_unpaired.fasta''
       = ''>readC'' @ [CHR 0x0A] @ ''CCCC'' @ [CHR 0x0A] @
         ''>readC'' @ [CHR 0x0A] @ ''CCCC'' @ [CHR 0x0A]"
    using cont [of "''6128/6128_unpaired.fasta''"] o2 by (simp add: content_def)
  ultimately show "\<exists>fs1 fs2.
     distribute_reads ?rf ?d True False ?fs = Inr fs1 \<and>
     distribute_reads ?rf ?d True False fs1 = Inr fs2 \<and>
     fs2 \<noteq> fs1 \<and>
     content fs1 ''5968/5968_unpaired.fasta''
       = ''>readA'' @ [CHR 0x0A] @ ''AAAA'' @ [CHR 0x0A] @
         ''>readC'' @ [CHR 0x0A] @ ''CCCC'' @ [CHR 0x0A] \<and>
     content fs2 ''5968/5968_unpaired.fasta''
       = ''>readA'' @ [CHR 0x0A] @ ''AAAA'' @ [CHR 0x0A] @
         ''>readC'' @ [CHR 0x0A] @ ''CCCC'' @ [CHR 0x0A] @
         ''>readA'' @ [CHR 0x0A] @ ''AAAA'' @ [CHR 0x0A] @
         ''>readC'' @ [CHR 0x0A] @ ''CCCC'' @ [CHR 0x0A] \<and>
     content fs2 ''6128/6128_unpaired.fasta''
       = ''>readC'' @ [CHR 0x0A] @ ''CCCC'' @ [CHR 0x0A] @
         ''>readC'' @ [CHR 0x0A] @ ''CCCC'' @ [CHR 0x0A]"
    using run1 run2 ne by blast
next
  let ?fs = "\<lparr>dirs = {}, files = Map.empty\<rparr>"
  let ?rf = "[[(''readX/1'', ''ACGT'', ''IIII'')], [(''readX/2'', ''TTTT'', ''JJJJ'')]]"
  let ?d = "[''readX'' \<mapsto> [''7'']]"
  note inst = rerun_duplicates_records
    [where fs = ?fs and readfiles = ?rf and read_hit_dict = ?d and single = True
       and merged = True]
  have rd: "readable ?rf"
    by (simp add: readable_def split_ws_def isspace_def)
  have dn: "\<forall>t \<in> index_targets ?d. directory_name t"
    by (auto simp: index_targets_def directory_name_def plain_name_def split: if_splits)
  then have ry: "ready_for (index_targets ?d) ?fs"
    by (simp add: ready_for_def)
  have dis: "disjoint_fs ?fs" by (simp add: disjoint_fs_def)
  from inst [THEN conjunct2, THEN conjunct1, THEN mp, OF rd, THEN mp, OF ry]
  obtain fs1 where run1: "distribute_reads ?rf ?d True True ?fs = Inr fs1" by blast
  from inst [THEN conjunct2, THEN conjunct2, THEN conjunct1, THEN mp, OF dis, THEN mp, OF dn,
      THEN mp, OF run1]
  obtain fs2 where run2: "distribute_reads ?rf ?d True True fs1 = Inr fs2"
    and cont: "\<And>p. content fs1 p = content ?fs p @ run_output ?rf ?d True p \<and>
              content fs2 p = content ?fs p @ run_output ?rf ?d True p @ run_output ?rf ?d True p"
    and changed: "(\<exists>p. run_output ?rf ?d True p \<noteq> []) \<longrightarrow> fs2 \<noteq> fs1"
    by blast
  have o1: "run_output ?rf ?d True ''7/7_interleaved.fasta'' =
      ''>readX'' @ [CHR 0x0A] @ ''ACGT'' @ [CHR 0x0A] @
      ''>readX'' @ [CHR 0x0A] @ ''TTTT'' @ [CHR 0x0A]"
    by (simp add: run_output_def paired_end_output_def pair_targets_def split_ws_def isspace_def
        paired_end_id_def endswith_def target_file_def os_path_join_def fasta_record_def
        fastq_record_def nl_def)
  have o2: "run_output ?rf ?d True ''7/7_interleaved.fastq'' =
      ''@readX'' @ [CHR 0x0A] @ ''ACGT'' @ [CHR 0x0A] @ ''+'' @ [CHR 0x0A] @ ''IIII'' @ [CHR 0x0A] @
      ''@readX'' @ [CHR 0x0A] @ ''TTTT'' @ [CHR 0x0A] @ ''+'' @ [CHR 0x0A] @ ''JJJJ'' @ [CHR 0x0A]"
    by (simp add: run_output_def paired_end_output_def pair_targets_def split_ws_def isspace_def
        paired_end_id_def endswith_def target_file_def os_path_join_def fasta_record_def
        fastq_record_def nl_def)
  from o1 have "\<exists>p. run_output ?rf ?d True p \<noteq> []" by (intro exI [of _ "''7/7_interleaved.fasta''"]) simp
  with changed have ne: "fs2 \<noteq> fs1" by blast
  have "content fs1 ''7/7_interleaved.fasta''
       = ''>readX'' @ [CHR 0x0A] @ ''ACGT'' @ [CHR 0x0A] @
         ''>readX'' @ [CHR 0x0A] @ ''TTTT'' @ [CHR 0x0A]"
    using cont [of "''7/7_interleaved.fasta''"] o1 by (simp add: content_def)
  moreover have "content fs2 ''7/7_interleaved.fasta''
       = ''>readX'' @ [CHR 0x0A] @ ''ACGT'' @ [CHR 0x0A] @
         ''>readX'' @ [CHR 0x0A] @ ''TTTT'' @ [CHR 0x0A] @
         ''>readX'' @ [CHR 0x0A] @ ''ACGT'' @ [CHR 0x0A] @
         ''>readX'' @ [CHR 0x0A] @ ''TTTT'' @ [CHR 0x0A]"
    using cont [of "''7/7_interleaved.fasta''"] o1 by (simp add: content_def)
  moreover have "content fs2 ''7/7_interleaved.fastq''
       = ''@readX'' @ [CHR 0x0A] @ ''ACGT'' @ [CHR 0x0A] @ ''+'' @ [CHR 0x0A] @ ''IIII'' @ [CHR 0x0A] @
         ''@readX'' @ [CHR 0x0A] @ ''TTTT'' @ [CHR 0x0A] @ ''+'' @ [CHR 0x0A] @ ''JJJJ'' @ [CHR 0x0A] @
         ''@readX'' @ [CHR 0x0A] @ ''ACGT'' @ [CHR 0x0A] @ ''+'' @ [CHR 0x0A] @ ''IIII'' @ [CHR 0x0A] @
         ''@readX'' @ [CHR 0x0A] @ ''TTTT'' @ [CHR 0x0A] @ ''+'' @ [CHR 0x0A] @ ''JJJJ'' @ [CHR 0x0A]"
    using cont [of "''7/7_interleaved.fastq''"] o2 by (simp add: content_def)
  ultimately show "\<exists>fs1 fs2.
     distribute_reads ?rf ?d True True ?fs = Inr fs1 \<and>
     distribute_reads ?rf ?d True True fs1 = Inr fs2 \<and>
     fs2 \<noteq> fs1 \<and>
     content fs1 ''7/7_interleaved.fasta''
       = ''>readX'' @ [CHR 0x0A] @ ''ACGT'' @ [CHR 0x0A] @
         ''>readX'' @ [CHR 0x0A] @ ''TTTT'' @ [CHR 0x0A] \<and>
     content fs2 ''7/7_interleaved.fasta''
       = ''>readX'' @ [CHR 0x0A] @ ''ACGT'' @ [CHR 0x0A] @
         ''>readX'' @ [CHR 0x0A] @ ''TTTT'' @ [CHR 0x0A] @
         ''>readX'' @ [CHR 0x0A] @ ''ACGT'' @ [CHR 0x0A] @
         ''>readX'' @ [CHR 0x0A] @ ''TTTT'' @ [CHR 0x0A] \<and>
     content fs2 ''7/7_interleaved.fastq''
       = ''@readX'' @ [CHR 0x0A] @ ''ACGT'' @ [CHR 0x0A] @ ''+'' @ [CHR 0x0A] @ ''IIII'' @ [CHR 0x0A] @
         ''@readX'' @ [CHR 0x0A] @ ''TTTT'' @ [CHR 0x0A] @ ''+'' @ [CHR 0x0A] @ ''JJJJ'' @ [CHR 0x0A] @
         ''@readX'' @ [CHR 0x0A] @ ''ACGT'' @ [CHR 0x0A] @ ''+'' @ [CHR 0x0A] @ ''IIII'' @ [CHR 0x0A] @
         ''@readX'' @ [CHR 0x0A] @ ''TTTT'' @ [CHR 0x0A] @ ''+'' @ [CHR 0x0A] @ ''JJJJ'' @ [CHR 0x0A]"
    using run1 run2 ne by blast
qed

text \<open>
  Claim C9: an input with a line of fewer than three whitespace-delimited fields (the
  empty line is one: it has no field) makes the builder raise \<open>IndexError\<close>; no mapping
  is returned for such an input, whatever the other lines are.
\<close>

theorem read_sorting_short_line_raises:
  "length (split_ws []) < 3 \<and>
   ((\<exists>l \<in> set bwa_results. length (split_ws l) < 3) \<longrightarrow>
      read_sorting bwa_results = Inl IndexError \<and>
      (\<forall>d. read_sorting bwa_results \<noteq> Inr d))"
  by (simp add: read_sorting_def read_sorting_loop_fails split_ws_def)

theorem read_sorting_short_line_raises_witness:
  "read_sorting [''readA 0 target-5968'', [], ''readB 16 target-6128''] = Inl IndexError \<and>
   read_sorting [''readA 0 target-5968'', ''readB 16''] = Inl IndexError"
proof -
  have a: "\<exists>l \<in> set [''readA 0 target-5968'', [], ''readB 16 target-6128'']. length (split_ws l) < 3"
    by (simp add: split_ws_def)
  have b: "\<exists>l \<in> set [''readA 0 target-5968'', ''readB 16'']. length (split_ws l) < 3"
    by (simp add: split_ws_def isspace_def)
  show ?thesis
    using read_sorting_short_line_raises [of "[''readA 0 target-5968'', [], ''readB 16 target-6128'']"]
      read_sorting_short_line_raises [of "[''readA 0 target-5968'', ''readB 16'']"] a b
    by blast
qed

text \<open>
  Claim C10, as amended: with three or more read files the second iterator is never
  bound. If the first file has a record, the run raises \<open>UnboundLocalError\<close> at that
  record and the file system is as it was; if the first file has no record, the loop
  body never runs and the run returns normally, the file system as it was.
\<close>

theorem three_read_files:
  "3 \<le> length readfiles \<longrightarrow>
     (readfiles ! 0 \<noteq> [] \<longrightarrow>
        distribute_reads readfiles read_hit_dict single merged fs = Inl (UnboundLocalError, fs)) \<and>
     (readfiles ! 0 = [] \<longrightarrow>
        distribute_reads readfiles read_hit_dict single merged fs = Inr fs)"
  by (simp add: distribute_reads_unbound)

theorem three_read_files_witness:
  "distribute_reads
     [[(''readX/1'', ''ACGT'', ''IIII'')], [(''readX/2'', ''TTTT'', ''JJJJ'')], []]
     [''readX'' \<mapsto> [''7'']] True False \<lparr>dirs = {}, files = Map.empty\<rparr>
   = Inl (UnboundLocalError, \<lparr>dirs = {}, files = Map.empty\<rparr>)"
  using three_read_files
    [of "[[(''readX/1'', ''ACGT'', ''IIII'')], [(''readX/2'', ''TTTT'', ''JJJJ'')], []]"
        "[''readX'' \<mapsto> [''7'']]" True False "\<lparr>dirs = {}, files = Map.empty\<rparr>"]
  by simp

theorem three_read_files_counterexample:
  "distribute_reads
     [[], [(''readX/2'', ''TTTT'', ''JJJJ'')], [(''readX/3'', ''GGGG'', ''KKKK'')]]
     [''readX'' \<mapsto> [''7'']] True False \<lparr>dirs = {}, files = Map.empty\<rparr>
   = Inr \<lparr>dirs = {}, files = Map.empty\<rparr>"
  by (simp add: distribute_reads_def)

end
